theory Spec2Isabelle
  imports Main "HOL-Library.Multiset"
begin

section \<open>Strings and numbers of the host language\<close>

text \<open>
  Strings are lists of code units; the model keeps to code units below 256.
  \<open>startsWith\<close> and \<open>includes_str\<close> (the method \<open>includes\<close>) are the two string tests
  that \<open>main.ts\<close> uses.
\<close>

definition startsWith :: "string \<Rightarrow> string \<Rightarrow> bool" where
  "startsWith s p = (take (length p) s = p)"

fun includes_str :: "string \<Rightarrow> string \<Rightarrow> bool" where
  "includes_str [] sub = (sub = [])"
| "includes_str (c # cs) sub = (startsWith (c # cs) sub \<or> includes_str cs sub)"

text \<open>\<open>s.split("/")[0]\<close>: the part of \<open>s\<close> before its first slash.\<close>

definition split_slash_first :: "string \<Rightarrow> string" where
  "split_slash_first s = takeWhile (\<lambda>c. c \<noteq> CHR ''/'') s"

definition digit_char :: "nat \<Rightarrow> char" where
  "digit_char d = char_of (48 + d)"

function show_nat :: "nat \<Rightarrow> string" where
  "show_nat n = (if n < 10 then [digit_char n] else show_nat (n div 10) @ [digit_char (n mod 10)])"
  by pat_completeness auto
termination
  by (relation "measure id") auto

declare show_nat.simps [simp del]

definition show_int :: "int \<Rightarrow> string" where
  "show_int n = (if n < 0 then CHR ''-'' # show_nat (nat (- n)) else show_nat (nat n))"

text \<open>
  The numbers that the sub-folder pass computes with: an integer or \<open>NaN\<close>.
  \<open>js_rem\<close> is the remainder operator \<open>%\<close>, whose result has the sign of the dividend.
\<close>

datatype jsnum = Num int | NaN

definition js_rem :: "int \<Rightarrow> int \<Rightarrow> int" where
  "js_rem a b = sgn a * (\<bar>a\<bar> mod \<bar>b\<bar>)"

definition is_digit :: "char \<Rightarrow> bool" where
  "is_digit c = (48 \<le> (of_char c :: nat) \<and> (of_char c :: nat) \<le> 57)"

definition digit_value :: "char \<Rightarrow> int" where
  "digit_value c = int (of_char c) - 48"

definition is_js_whitespace :: "char \<Rightarrow> bool" where
  "is_js_whitespace c = ((of_char c :: nat) \<in> {9, 10, 11, 12, 13, 32, 160})"

text \<open>
  \<open>Number(c + 1)\<close> for a one-character string \<open>c\<close>: the operand of \<open>+\<close> is a string, so
  \<open>1\<close> is appended as the text \<open>"1"\<close> and the two-character text is converted. A digit
  \<open>d\<close> gives \<open>10 d + 1\<close>, a sign gives \<open>1\<close> or \<open>-1\<close>, white space is trimmed, and any other
  character gives \<open>NaN\<close>. A dot gives the fraction \<open>0.1\<close>, which is outside the integers
  of this model: the result is \<open>None\<close> there.
\<close>

definition Number_concat_1 :: "char \<Rightarrow> jsnum option" where
  "Number_concat_1 c =
     (if is_digit c then Some (Num (10 * digit_value c + 1))
      else if c = CHR ''+'' then Some (Num 1)
      else if c = CHR ''-'' then Some (Num (- 1))
      else if c = CHR ''.'' then None
      else if is_js_whitespace c then Some (Num 1)
      else Some NaN)"

text \<open>The template literal \<open>`rcs-item-${classIndex}`\<close>.\<close>

fun rcs_item_class :: "jsnum \<Rightarrow> string" where
  "rcs_item_class (Num n) = ''rcs-item-'' @ show_int n"
| "rcs_item_class NaN = ''rcs-item-NaN''"

section \<open>The file-tree document\<close>

text \<open>
  The document is the list of its elements in document order. An element has its parent
  (an index into the list, below the length of the list in a well-formed document), its
  attributes other than \<open>class\<close>, and the tokens of its class list in order.
\<close>

record element =
  parentElement :: "nat option"
  attributes :: "(string \<times> string) list"
  classList :: "string list"

type_synonym document = "element list"

definition data_path :: "element \<Rightarrow> string option" where
  "data_path e = map_of (attributes e) ''data-path''"

text \<open>
  The selector \<open>`[data-path="${p}"]`\<close> is the plain attribute test only when \<open>p\<close> has no
  character that ends or escapes the quoted string.
\<close>

definition selector_plain :: "string \<Rightarrow> bool" where
  "selector_plain p = list_all (\<lambda>c. (of_char c :: nat) \<notin> {0, 10, 12, 13, 34, 92}) p"

text \<open>
  The name is pasted into the selector without escaping, so the host reads it as the
  body of a quoted string of a style sheet. \<open>Matches v\<close>: the selector is valid and is the
  test \<open>data-path = v\<close>. \<open>Throws\<close>: the selector is not valid and \<open>querySelector\<close> throws
  a syntax error. \<open>Beyond\<close>: the name may form another valid selector, or a value with a
  code unit that this model does not have.
\<close>

datatype selector_result = Matches string | Throws | Beyond

text \<open>The host first turns \<open>CR LF\<close>, \<open>CR\<close> and \<open>FF\<close> into \<open>LF\<close>.\<close>

fun css_newlines :: "bool \<Rightarrow> string \<Rightarrow> string" where
  "css_newlines after_cr [] = []"
| "css_newlines after_cr (c # cs) =
     (if (of_char c :: nat) = 13 then CHR 0x0A # css_newlines True cs
      else if (of_char c :: nat) = 10
           then (if after_cr then css_newlines False cs else c # css_newlines False cs)
      else if (of_char c :: nat) = 12 then CHR 0x0A # css_newlines False cs
      else c # css_newlines False cs)"

definition is_hex :: "char \<Rightarrow> bool" where
  "is_hex c =
     (let n = (of_char c :: nat)
      in (48 \<le> n \<and> n \<le> 57) \<or> (65 \<le> n \<and> n \<le> 70) \<or> (97 \<le> n \<and> n \<le> 102))"

definition hex_value :: "char \<Rightarrow> nat" where
  "hex_value c =
     (let n = (of_char c :: nat)
      in if n \<le> 57 then n - 48 else if n \<le> 70 then n - 55 else n - 87)"

definition is_css_space :: "char \<Rightarrow> bool" where
  "is_css_space c = ((of_char c :: nat) \<in> {9, 10, 32})"

text \<open>
  The code unit that a hexadecimal escape stands for. Zero stands for the replacement
  character, which, like the values from 256 on, is not a code unit of this model.
\<close>

definition escaped_char :: "nat \<Rightarrow> char option" where
  "escaped_char v = (if 0 < v \<and> v < 256 then Some (char_of v) else None)"

text \<open>What a code unit does inside the string when it is not part of an escape.\<close>

datatype char_class = Closes | Breaks | Replaced | Escapes | Plain

definition classify :: "char \<Rightarrow> char_class" where
  "classify c =
     (let n = (of_char c :: nat)
      in if n = 34 then Closes
         else if n = 10 then Breaks
         else if n = 0 then Replaced
         else if n = 92 then Escapes
         else Plain)"

text \<open>
  A double quote inside the name closes the string. Then only white space, a comment, a
  modifier \<open>i\<close> or \<open>s\<close> (perhaps written with an escape) or the closing bracket can
  follow in a valid selector; anything else, the final quote of the template included,
  makes the selector invalid.
\<close>

definition after_closing_quote :: "string \<Rightarrow> selector_result" where
  "after_closing_quote rest =
     (case dropWhile is_css_space rest of
        [] \<Rightarrow> Throws
      | n # _ \<Rightarrow>
          if (of_char n :: nat) \<in> {93, 105, 73, 115, 83, 92, 47} then Beyond else Throws)"

text \<open>
  The scan of the string body: outside an escape, after a backslash, or inside a
  hexadecimal escape of which \<open>k\<close> digits with the value \<open>v\<close> have been read. A line break
  in the string makes the selector invalid; a backslash before a line break is dropped with
  it; a hexadecimal escape has at most six digits and takes one white space after it. At
  the end of the name the closing quote of the template follows.
\<close>

datatype scan_state = In_string | After_backslash | In_hex nat nat

fun scan_string :: "scan_state \<Rightarrow> string \<Rightarrow> string \<Rightarrow> selector_result" where
  "scan_string st acc [] =
     (case st of
        In_string \<Rightarrow> Matches acc
      | After_backslash \<Rightarrow> Beyond
      | In_hex k v \<Rightarrow>
          (case escaped_char v of None \<Rightarrow> Beyond | Some x \<Rightarrow> Matches (acc @ [x])))"
| "scan_string In_string acc (c # cs) =
     (case classify c of
        Closes \<Rightarrow> after_closing_quote cs
      | Breaks \<Rightarrow> Throws
      | Replaced \<Rightarrow> Beyond
      | Escapes \<Rightarrow> scan_string After_backslash acc cs
      | Plain \<Rightarrow> scan_string In_string (acc @ [c]) cs)"
| "scan_string After_backslash acc (c # cs) =
     (if is_hex c then scan_string (In_hex 1 (hex_value c)) acc cs
      else if (of_char c :: nat) = 10 then scan_string In_string acc cs
      else if (of_char c :: nat) = 0 then Beyond
      else scan_string In_string (acc @ [c]) cs)"
| "scan_string (In_hex k v) acc (c # cs) =
     (if is_hex c \<and> k < 6 then scan_string (In_hex (Suc k) (16 * v + hex_value c)) acc cs
      else case escaped_char v of
             None \<Rightarrow> Beyond
           | Some x \<Rightarrow>
               if is_css_space c then scan_string In_string (acc @ [x]) cs
               else (case classify c of
                       Closes \<Rightarrow> after_closing_quote cs
                     | Breaks \<Rightarrow> Throws
                     | Replaced \<Rightarrow> Beyond
                     | Escapes \<Rightarrow> scan_string After_backslash (acc @ [x]) cs
                     | Plain \<Rightarrow> scan_string In_string (acc @ [x, c]) cs))"

definition selector_value :: "string \<Rightarrow> selector_result" where
  "selector_value p = scan_string In_string [] (css_newlines False p)"

fun find_first :: "('a \<Rightarrow> bool) \<Rightarrow> 'a list \<Rightarrow> nat option" where
  "find_first P [] = None"
| "find_first P (x # xs) =
     (if P x then Some 0 else map_option Suc (find_first P xs))"

definition querySelector_data_path :: "document \<Rightarrow> string \<Rightarrow> nat option" where
  "querySelector_data_path d p = find_first (\<lambda>e. data_path e = Some p) d"

text \<open>
  \<open>document.querySelector(s)?.parentElement\<close> for a selector \<open>s\<close> that is the test
  \<open>data-path = p\<close>.
\<close>

definition parent_of_path :: "document \<Rightarrow> string \<Rightarrow> nat option" where
  "parent_of_path d p =
     (case querySelector_data_path d p of
        None \<Rightarrow> None
      | Some e \<Rightarrow> parentElement (d ! e))"

definition classList_add :: "string \<Rightarrow> string list \<Rightarrow> string list" where
  "classList_add c cs = (if c \<in> set cs then cs else cs @ [c])"

definition add_class_at :: "nat \<Rightarrow> string \<Rightarrow> document \<Rightarrow> document" where
  "add_class_at q c d =
     (if q < length d then d[q := (d ! q)\<lparr>classList := classList_add c (classList (d ! q))\<rparr>]
      else d)"

text \<open>
  \<open>document.querySelector(s)?.parentElement?.classList.add(c)\<close> for such a selector.
\<close>

definition add_class_via_path :: "string \<Rightarrow> string \<Rightarrow> document \<Rightarrow> document" where
  "add_class_via_path p c d =
     (case parent_of_path d p of None \<Rightarrow> d | Some q \<Rightarrow> add_class_at q c d)"

section \<open>Settings, vault and the styling pass\<close>

record RainbowColoredSidebarSettings =
  scheme :: string
  increaseContrast :: bool
  folderList :: "string list option"

text \<open>
  The vault adapter: \<open>adapter_list p\<close> is the \<open>folders\<close> part of \<open>adapter.list(p)\<close>, or
  \<open>None\<close> when the promise is rejected.
\<close>

record vault =
  adapter_list :: "string \<Rightarrow> string list option"
  configDir :: string

text \<open>
  How a run ends. \<open>Completed\<close>: it ran to its end. \<open>Rejected\<close>: \<open>adapter.list\<close> failed
  and the run stopped there. \<open>TypeError\<close>: a method was called on \<open>undefined\<close>.
  \<open>SyntaxError\<close>: \<open>querySelector\<close> was given an invalid selector and threw.
  \<open>Unmodelled\<close>: the run met a selector, a number or a property value outside this
  model, and nothing is said about it. The state reached so far is returned with the
  other four.
\<close>

datatype outcome = Completed | Rejected | TypeError | SyntaxError | Unmodelled

text \<open>
  \<open>Array.prototype.sort\<close> with a consistent comparator is stable: an element goes
  before the first element that it does not compare greater than, and elements that
  compare equal keep the order of the input. The comparator is \<open>localeCompare\<close> with the
  numeric and case-first options, a function of the host; it is a parameter here.
\<close>

fun insert_by :: "('a \<Rightarrow> 'a \<Rightarrow> int) \<Rightarrow> 'a \<Rightarrow> 'a list \<Rightarrow> 'a list" where
  "insert_by cmp x [] = [x]"
| "insert_by cmp x (y # ys) =
     (if cmp x y \<le> 0 then x # y # ys else y # insert_by cmp x ys)"

definition sort_by :: "('a \<Rightarrow> 'a \<Rightarrow> int) \<Rightarrow> 'a list \<Rightarrow> 'a list" where
  "sort_by cmp xs = foldr (insert_by cmp) xs []"

definition visible :: "string \<Rightarrow> bool" where
  "visible folder = (\<not> startsWith folder ''.'')"

definition top_classIndex :: "nat \<Rightarrow> nat" where
  "top_classIndex i = (i mod 16) + 1"

text \<open>The first loop of \<open>setFolderStyling\<close>, from index \<open>i\<close> on.\<close>

fun style_top :: "nat \<Rightarrow> string list \<Rightarrow> document \<Rightarrow> outcome \<times> document" where
  "style_top i [] d = (Completed, d)"
| "style_top i (f # fs) d =
     (case selector_value f of
        Matches v \<Rightarrow>
          style_top (Suc i) fs
            (add_class_via_path v (rcs_item_class (Num (int (top_classIndex i)))) d)
      | Throws \<Rightarrow> (SyntaxError, d)
      | Beyond \<Rightarrow> (Unmodelled, d))"

definition first_rcs_item :: "string list \<Rightarrow> string option" where
  "first_rcs_item cs =
     (case filter (\<lambda>item. includes_str item ''rcs-item'') cs of
        [] \<Rightarrow> None
      | c # _ \<Rightarrow> Some c)"

fun sub_classIndex :: "jsnum \<Rightarrow> nat \<Rightarrow> jsnum" where
  "sub_classIndex (Num new_rcs_index) j = Num (js_rem (new_rcs_index + 1 + int j) 16 + 1)"
| "sub_classIndex NaN j = NaN"

text \<open>The inner loop over \<open>ext\<close>, from index \<open>j\<close> on.\<close>

fun style_ext :: "jsnum \<Rightarrow> nat \<Rightarrow> string list \<Rightarrow> document \<Rightarrow> outcome \<times> document" where
  "style_ext new_rcs_index j [] d = (Completed, d)"
| "style_ext new_rcs_index j (f # fs) d =
     (case selector_value f of
        Matches v \<Rightarrow>
          style_ext new_rcs_index (Suc j) fs
            (add_class_via_path v ''rcs-sub-item''
              (add_class_via_path v (rcs_item_class (sub_classIndex new_rcs_index j)) d))
      | Throws \<Rightarrow> (SyntaxError, d)
      | Beyond \<Rightarrow> (Unmodelled, d))"

text \<open>
  One round of the outer loop, for the designated folder \<open>sub_folder\<close>: the listing is
  awaited first, then the class token of the parent is read, then the inner loop runs. A
  parent index outside the document does not occur in a well-formed document.
\<close>

definition style_sub_folder :: "vault \<Rightarrow> string \<Rightarrow> document \<Rightarrow> outcome \<times> document" where
  "style_sub_folder v sub_folder d =
     (case adapter_list v sub_folder of
        None \<Rightarrow> (Rejected, d)
      | Some listing \<Rightarrow>
          let ext = filter (\<lambda>folder. folder \<noteq> configDir v) listing;
              parent_folder = split_slash_first sub_folder
          in case selector_value parent_folder of
               Throws \<Rightarrow> (SyntaxError, d)
             | Beyond \<Rightarrow> (Unmodelled, d)
             | Matches parent_path \<Rightarrow>
                 (case parent_of_path d parent_path of
                    None \<Rightarrow> (Completed, d)
                  | Some q \<Rightarrow>
                      if \<not> q < length d then (Unmodelled, d)
                      else case first_rcs_item (classList (d ! q)) of
                             None \<Rightarrow> (Completed, d)
                           | Some parent_rcs_index \<Rightarrow>
                               if parent_rcs_index = [] then (Completed, d)
                               else case Number_concat_1 (last parent_rcs_index) of
                                      None \<Rightarrow> (Unmodelled, d)
                                    | Some new_rcs_index \<Rightarrow> style_ext new_rcs_index 0 ext d))"

fun style_subs :: "vault \<Rightarrow> string list \<Rightarrow> document \<Rightarrow> outcome \<times> document" where
  "style_subs v [] d = (Completed, d)"
| "style_subs v (s # ss) d =
     (case style_sub_folder v s d of
        (Completed, d') \<Rightarrow> style_subs v ss d'
      | (oc, d') \<Rightarrow> (oc, d'))"

text \<open>
  The top-level pass on the listing of the root: filter, sort, then the first loop.
\<close>

definition index_top_level ::
  "(string \<Rightarrow> string \<Rightarrow> int) \<Rightarrow> string list \<Rightarrow> document \<Rightarrow> outcome \<times> document" where
  "index_top_level localeCompare listing d =
     (let folders = sort_by localeCompare (filter visible listing)
      in style_top 0 folders d)"

text \<open>The second part: the designated folders of the settings, when the list is set.\<close>

definition index_sub_folders ::
  "vault \<Rightarrow> RainbowColoredSidebarSettings \<Rightarrow> document \<Rightarrow> outcome \<times> document" where
  "index_sub_folders v settings d =
     (case folderList settings of
        None \<Rightarrow> (Completed, d)
      | Some sub_folders \<Rightarrow> style_subs v sub_folders d)"

definition setFolderStyling ::
  "(string \<Rightarrow> string \<Rightarrow> int) \<Rightarrow> vault \<Rightarrow> RainbowColoredSidebarSettings \<Rightarrow> document
     \<Rightarrow> outcome \<times> document" where
  "setFolderStyling localeCompare v settings d =
     (case adapter_list v ''/'' of
        None \<Rightarrow> (Rejected, d)
      | Some listing \<Rightarrow>
          (case index_top_level localeCompare listing d of
             (Completed, d1) \<Rightarrow> index_sub_folders v settings d1
           | (oc, d1) \<Rightarrow> (oc, d1)))"

section \<open>The colour scheme on the document root\<close>

text \<open>
  The document root: the custom properties of its inline style, and its attributes.
\<close>

record root_element =
  style :: "string \<rightharpoonup> string"
  attrs :: "string \<rightharpoonup> string"

text \<open>
  \<open>style.setProperty(name, value)\<close>: the empty value removes the property. A value made
  of letters, digits, \<open># , . % -\<close> and inner spaces is a valid value of a custom property
  and is stored as it is; other values are outside this model.
\<close>

definition css_value_char :: "char \<Rightarrow> bool" where
  "css_value_char c =
     (let n = (of_char c :: nat)
      in (48 \<le> n \<and> n \<le> 57) \<or> (65 \<le> n \<and> n \<le> 90) \<or> (97 \<le> n \<and> n \<le> 122)
         \<or> n \<in> {32, 35, 37, 44, 45, 46})"

definition css_value_plain :: "string \<Rightarrow> bool" where
  "css_value_plain v =
     (v \<noteq> [] \<and> list_all css_value_char v \<and> hd v \<noteq> CHR '' '' \<and> last v \<noteq> CHR '' '')"

definition setProperty ::
  "string \<Rightarrow> string \<Rightarrow> (string \<rightharpoonup> string) \<Rightarrow> (string \<rightharpoonup> string) option" where
  "setProperty name v st =
     (if v = [] then Some (st(name := None))
      else if css_value_plain v then Some (st(name \<mapsto> v))
      else None)"

text \<open>The \<open>forEach\<close> of \<open>setColorScheme\<close>, from index \<open>index\<close> on.\<close>

fun set_colors ::
  "nat \<Rightarrow> string list \<Rightarrow> (string \<rightharpoonup> string) \<Rightarrow> (string \<rightharpoonup> string) option" where
  "set_colors index [] st = Some st"
| "set_colors index (color # rest) st =
     (case setProperty (''--rcs-color-'' @ show_nat (index + 1)) color st of
        None \<Rightarrow> None
      | Some st' \<Rightarrow> set_colors (Suc index) rest st')"

text \<open>
  The table \<open>schemes\<close> of \<open>color-schemes.ts\<close> is a parameter: a map from scheme names to
  colour lists. A name that is not in the table gives \<open>undefined\<close>, and the call of
  \<open>forEach\<close> on it throws.
\<close>

definition setColorScheme ::
  "(string \<rightharpoonup> string list) \<Rightarrow> RainbowColoredSidebarSettings \<Rightarrow> root_element
     \<Rightarrow> outcome \<times> root_element" where
  "setColorScheme schemes settings root =
     (case schemes (scheme settings) of
        None \<Rightarrow> (TypeError, root)
      | Some newScheme \<Rightarrow>
          (case set_colors 0 newScheme (style root) of
             None \<Rightarrow> (Unmodelled, root)
           | Some st \<Rightarrow>
               (Completed,
                root\<lparr>style := st,
                     attrs := (if increaseContrast settings
                               then (attrs root)(''data-rcs-a11y'' \<mapsto> ''1'')
                               else (attrs root)(''data-rcs-a11y'' := None))\<rparr>)))"

section \<open>Loading the settings\<close>

text \<open>
  The stored data is a parsed JSON value, \<open>JNull\<close> when nothing was stored. Numbers are
  kept to the integers. The settings object is the map of its own properties.
\<close>

datatype json =
    JNull
  | JBool bool
  | JNumber int
  | JString string
  | JArray "json list"
  | JObject "(string \<times> json) list"

definition DEFAULT_SETTINGS :: json where
  "DEFAULT_SETTINGS =
     JObject [(''scheme'', JString ''csDefault''),
              (''increaseContrast'', JBool False),
              (''folderList'', JArray [])]"

text \<open>
  The own enumerable properties that \<open>Object.assign\<close> copies from a source: the entries
  of an object, the indexed elements of an array, the indexed characters of a string,
  and nothing from \<open>null\<close>, a boolean or a number.
\<close>

fun own_enumerable :: "json \<Rightarrow> (string \<times> json) list" where
  "own_enumerable (JObject kvs) = kvs"
| "own_enumerable (JArray xs) = zip (map show_nat [0..<length xs]) xs"
| "own_enumerable (JString s) = zip (map show_nat [0..<length s]) (map (\<lambda>c. JString [c]) s)"
| "own_enumerable JNull = []"
| "own_enumerable (JBool b) = []"
| "own_enumerable (JNumber n) = []"

text \<open>
  A copied property is set on the target. Setting \<open>__proto__\<close> on a plain object goes to
  the prototype and creates no own property.
\<close>

definition set_own :: "(string \<rightharpoonup> json) \<Rightarrow> string \<times> json \<Rightarrow> (string \<rightharpoonup> json)" where
  "set_own target kv = (if fst kv = ''__proto__'' then target else target(fst kv \<mapsto> snd kv))"

definition Object_assign :: "(string \<rightharpoonup> json) \<Rightarrow> json list \<Rightarrow> (string \<rightharpoonup> json)" where
  "Object_assign target sources = foldl (\<lambda>t src. foldl set_own t (own_enumerable src)) target sources"

definition loadSettings :: "json \<Rightarrow> (string \<rightharpoonup> json)" where
  "loadSettings data = Object_assign Map.empty [DEFAULT_SETTINGS, data]"

section \<open>The debounced observer\<close>

text \<open>
  Time is counted in milliseconds. The host keeps the pending timers as pairs of a
  handle and the time at which the timer is due; handles are positive and never reused.
  \<open>runs\<close> records the times at which a timer started \<open>setFolderStyling\<close>.
\<close>

record timer_state =
  mutationTimeout :: "nat option"
  pending :: "(nat \<times> nat) list"
  issued :: nat
  runs :: "nat list"

definition clearTimeout :: "nat \<Rightarrow> timer_state \<Rightarrow> timer_state" where
  "clearTimeout h s = s\<lparr>pending := filter (\<lambda>t. fst t \<noteq> h) (pending s)\<rparr>"

definition setTimeout :: "nat \<Rightarrow> nat \<Rightarrow> timer_state \<Rightarrow> nat \<times> timer_state" where
  "setTimeout delay now s =
     (Suc (issued s),
      s\<lparr>pending := pending s @ [(Suc (issued s), now + delay)], issued := Suc (issued s)\<rparr>)"

text \<open>The callback of the mutation observer, called at time \<open>now\<close>.\<close>

definition observer_callback :: "nat \<Rightarrow> timer_state \<Rightarrow> timer_state" where
  "observer_callback now s =
     (let s1 = (case mutationTimeout s of
                  None \<Rightarrow> s
                | Some h \<Rightarrow> if h \<noteq> 0 then clearTimeout h s else s);
          (h', s2) = setTimeout 200 now s1
      in s2\<lparr>mutationTimeout := Some h'\<rparr>)"

text \<open>
  The host lets time pass up to \<open>now\<close>: the timers due by then fire in the order of
  their due times, each starting one run of the indexer.
\<close>

definition fire_due :: "nat \<Rightarrow> timer_state \<Rightarrow> timer_state" where
  "fire_due now s =
     s\<lparr>pending := filter (\<lambda>t. \<not> snd t \<le> now) (pending s),
       runs := runs s @ map snd (sort_key snd (filter (\<lambda>t. snd t \<le> now) (pending s)))\<rparr>"

text \<open>Mutation callbacks at the times of the list, in order.\<close>

fun deliver :: "nat list \<Rightarrow> timer_state \<Rightarrow> timer_state" where
  "deliver [] s = s"
| "deliver (t # ts) s = deliver ts (observer_callback t (fire_due t s))"

text \<open>
  A mutation of the document has a type and a place: at the node that is observed, below
  it, or elsewhere. The observer is registered with \<open>childList\<close> and \<open>subtree\<close> only, and
  the host calls the callback for the mutations that these options select.
\<close>

datatype mutation_type = ChildList | Attributes | CharacterData

datatype mutation_place = At_target | In_subtree | Elsewhere

record mutation =
  kind :: mutation_type
  place :: mutation_place

record observer_options =
  opt_childList :: bool
  opt_attributes :: bool
  opt_characterData :: bool
  opt_subtree :: bool

definition registered_options :: observer_options where
  "registered_options =
     \<lparr>opt_childList = True, opt_attributes = False, opt_characterData = False,
      opt_subtree = True\<rparr>"

definition reported :: "observer_options \<Rightarrow> mutation \<Rightarrow> bool" where
  "reported opts m =
     ((case kind m of
         ChildList \<Rightarrow> opt_childList opts
       | Attributes \<Rightarrow> opt_attributes opts
       | CharacterData \<Rightarrow> opt_characterData opts)
      \<and> (place m = At_target \<or> (place m = In_subtree \<and> opt_subtree opts)))"

text \<open>The times of the callbacks that a timed list of mutations causes.\<close>

definition callback_times :: "observer_options \<Rightarrow> (nat \<times> mutation) list \<Rightarrow> nat list" where
  "callback_times opts ms = map fst (filter (\<lambda>e. reported opts (snd e)) ms)"

definition observe :: "(nat \<times> mutation) list \<Rightarrow> timer_state \<Rightarrow> timer_state" where
  "observe ms s = deliver (callback_times registered_options ms) s"

text \<open>A burst: the times do not decrease, and each is less than 200 after the one before.\<close>

fun burst :: "nat list \<Rightarrow> bool" where
  "burst [] = True"
| "burst [t] = True"
| "burst (t # u # ts) = (t \<le> u \<and> u < t + 200 \<and> burst (u # ts))"

section \<open>Notions used in the statements\<close>

text \<open>
  \<open>adds_only A e e'\<close>: the element \<open>e'\<close> is \<open>e\<close> with class tokens appended to its class
  list, each of them satisfying \<open>A\<close>; parent, attributes and the former tokens are as
  they were.
\<close>

definition adds_only :: "(string \<Rightarrow> bool) \<Rightarrow> element \<Rightarrow> element \<Rightarrow> bool" where
  "adds_only A e e' =
     (parentElement e' = parentElement e \<and> attributes e' = attributes e \<and>
      take (length (classList e)) (classList e') = classList e \<and>
      list_all A (drop (length (classList e)) (classList e')))"

definition rcs_class_1_16 :: "string \<Rightarrow> bool" where
  "rcs_class_1_16 c =
     (c = ''rcs-sub-item'' \<or> c \<in> set (map (\<lambda>k. rcs_item_class (Num (int k))) [1..<17]))"

text \<open>The sixteen class tokens of the cycle, in order.\<close>

definition rcs_item_tokens :: "string list" where
  "rcs_item_tokens =
     [''rcs-item-1'', ''rcs-item-2'', ''rcs-item-3'', ''rcs-item-4'',
      ''rcs-item-5'', ''rcs-item-6'', ''rcs-item-7'', ''rcs-item-8'',
      ''rcs-item-9'', ''rcs-item-10'', ''rcs-item-11'', ''rcs-item-12'',
      ''rcs-item-13'', ''rcs-item-14'', ''rcs-item-15'', ''rcs-item-16'']"

text \<open>
  Every class token of the document that contains \<open>rcs-item\<close> ends in a decimal digit,
  as the tokens \<open>rcs-item-1\<close> to \<open>rcs-item-16\<close> do.
\<close>

definition rcs_items_numbered :: "document \<Rightarrow> bool" where
  "rcs_items_numbered d =
     list_all (\<lambda>e. list_all (\<lambda>c. \<not> includes_str c ''rcs-item'' \<or> (c \<noteq> [] \<and> is_digit (last c)))
                       (classList e)) d"

text \<open>
  A comparator orders the names of \<open>S\<close> strictly: any two are comparable, the order
  is transitive, and two names that do not compare greater than each other are equal.
\<close>

definition orders_strictly :: "('a \<Rightarrow> 'a \<Rightarrow> int) \<Rightarrow> 'a set \<Rightarrow> bool" where
  "orders_strictly cmp S =
     ((\<forall>a\<in>S. \<forall>b\<in>S. cmp a b \<le> 0 \<or> cmp b a \<le> 0) \<and>
      (\<forall>a\<in>S. \<forall>b\<in>S. \<forall>c\<in>S. cmp a b \<le> 0 \<and> cmp b c \<le> 0 \<longrightarrow> cmp a c \<le> 0) \<and>
      (\<forall>a\<in>S. \<forall>b\<in>S. cmp a b \<le> 0 \<and> cmp b a \<le> 0 \<longrightarrow> a = b))"


text \<open>The designated folders of the settings; none when the list is not set.\<close>

definition designated :: "RainbowColoredSidebarSettings \<Rightarrow> string list" where
  "designated settings = (case folderList settings of None \<Rightarrow> [] | Some sub_folders \<Rightarrow> sub_folders)"

section \<open>Example data\<close>

text \<open>
  The examples use names that \<open>localeCompare\<close> orders as the comparison of code units
  does: names of lower-case letters, and names that differ in their first letter.
\<close>

fun compare_code_units :: "string \<Rightarrow> string \<Rightarrow> int" where
  "compare_code_units [] [] = 0"
| "compare_code_units [] (y # ys) = - 1"
| "compare_code_units (x # xs) [] = 1"
| "compare_code_units (x # xs) (y # ys) =
     (if (of_char x :: nat) < of_char y then - 1
      else if (of_char y :: nat) < of_char x then 1
      else compare_code_units xs ys)"

text \<open>
  A file tree as the host renders it: a folder is an item whose first child is the
  title carrying \<open>data-path\<close> and whose second child holds the items of its sub-folders.
\<close>

definition tree_item :: "nat option \<Rightarrow> string list \<Rightarrow> element" where
  "tree_item p extra =
     \<lparr>parentElement = p, attributes = [], classList = [''tree-item'', ''nav-folder''] @ extra\<rparr>"

definition tree_title :: "nat \<Rightarrow> string \<Rightarrow> element" where
  "tree_title p path =
     \<lparr>parentElement = Some p, attributes = [(''data-path'', path)],
      classList = [''tree-item-self'', ''nav-folder-title'']\<rparr>"

definition tree_children :: "nat \<Rightarrow> element" where
  "tree_children p =
     \<lparr>parentElement = Some p, attributes = [], classList = [''tree-item-children'']\<rparr>"

text \<open>
  Folders \<open>a\<close> with \<open>a/x\<close> and \<open>a/y\<close>, \<open>b\<close> with \<open>b/z\<close>, and the hidden \<open>.obsidian\<close>;
  \<open>a\<close> and \<open>b\<close> are designated in the settings.
\<close>

definition example_document :: document where
  "example_document =
     [\<lparr>parentElement = None, attributes = [], classList = [''nav-files-container'']\<rparr>,
      tree_item (Some 0) [], tree_title 1 ''a'', tree_children 1,
      tree_item (Some 3) [], tree_title 4 ''a/x'',
      tree_item (Some 3) [], tree_title 6 ''a/y'',
      tree_item (Some 0) [], tree_title 8 ''b'', tree_children 8,
      tree_item (Some 10) [], tree_title 11 ''b/z'',
      tree_item (Some 0) [], tree_title 13 ''.obsidian'']"

definition example_vault :: vault where
  "example_vault =
     \<lparr>adapter_list = map_of [(''/'', [''b'', ''.obsidian'', ''a'']),
                             (''a'', [''a/x'', ''a/y'']), (''b'', [''b/z''])],
      configDir = ''.obsidian''\<rparr>"

definition example_settings :: RainbowColoredSidebarSettings where
  "example_settings =
     \<lparr>scheme = ''csDefault'', increaseContrast = False, folderList = Some [''a'', ''b'']\<rparr>"

text \<open>
  The same folders as in \<open>example_vault\<close>; the adapter enumerates the root in another
  order.
\<close>

definition example_vault_root_reordered :: vault where
  "example_vault_root_reordered =
     \<lparr>adapter_list = map_of [(''/'', [''a'', ''b'', ''.obsidian'']),
                             (''a'', [''a/x'', ''a/y'']), (''b'', [''b/z''])],
      configDir = ''.obsidian''\<rparr>"

text \<open>
  The tree of \<open>example_document\<close> in which the item of \<open>a\<close> already carries a class
  token that contains \<open>rcs-item\<close> and is not one of \<open>rcs-item-1\<close> to \<open>rcs-item-16\<close>.
\<close>

definition example_document_foreign :: document where
  "example_document_foreign =
     [\<lparr>parentElement = None, attributes = [], classList = [''nav-files-container'']\<rparr>,
      tree_item (Some 0) [''rcs-item-fixed''], tree_title 1 ''a'', tree_children 1,
      tree_item (Some 3) [], tree_title 4 ''a/x'',
      tree_item (Some 3) [], tree_title 6 ''a/y'',
      tree_item (Some 0) [], tree_title 8 ''b'', tree_children 8,
      tree_item (Some 10) [], tree_title 11 ''b/z'',
      tree_item (Some 0) [], tree_title 13 ''.obsidian'']"

text \<open>
  Five folders \<open>a\<close> to \<open>e\<close>; the fourth and the fifth, \<open>d\<close> and \<open>e\<close>, are designated and
  have one sub-folder each.
\<close>

definition five_document :: document where
  "five_document =
     [\<lparr>parentElement = None, attributes = [], classList = [''nav-files-container'']\<rparr>,
      tree_item (Some 0) [], tree_title 1 ''a'',
      tree_item (Some 0) [], tree_title 3 ''b'',
      tree_item (Some 0) [], tree_title 5 ''c'',
      tree_item (Some 0) [], tree_title 7 ''d'', tree_children 7,
      tree_item (Some 9) [], tree_title 10 ''d/x'',
      tree_item (Some 0) [], tree_title 12 ''e'', tree_children 12,
      tree_item (Some 14) [], tree_title 15 ''e/x'']"

definition five_vault :: vault where
  "five_vault =
     \<lparr>adapter_list = map_of [(''/'', [''a'', ''b'', ''c'', ''d'', ''e'']),
                             (''d'', [''d/x'']), (''e'', [''e/x''])],
      configDir = ''.obsidian''\<rparr>"

definition five_settings :: RainbowColoredSidebarSettings where
  "five_settings =
     \<lparr>scheme = ''csDefault'', increaseContrast = False, folderList = Some [''d'', ''e'']\<rparr>"

text \<open>
  A table with one scheme of three colours, a root element without inline properties
  and attributes, and settings whose scheme name is not in the table.
\<close>

definition example_schemes :: "string \<rightharpoonup> string list" where
  "example_schemes = map_of [(''csDefault'', [''#e40303'', ''#ff8c00'', ''#ffed00''])]"

definition example_root :: root_element where
  "example_root = \<lparr>style = Map.empty, attrs = Map.empty\<rparr>"

definition stale_settings :: RainbowColoredSidebarSettings where
  "stale_settings =
     \<lparr>scheme = ''csRemoved'', increaseContrast = True, folderList = Some []\<rparr>"

text \<open>A state of the timers in which nothing is pending and no run has happened.\<close>

definition idle_timers :: timer_state where
  "idle_timers = \<lparr>mutationTimeout = None, pending = [], issued = 0, runs = []\<rparr>"

text \<open>
  On names made of decimal digits \<open>localeCompare\<close> with the numeric option compares the
  numbers that the names denote, so that \<open>1\<close> and \<open>01\<close> compare equal. Two folders with
  these names, and the two orders in which the adapter can enumerate them.
\<close>

definition decimal_value :: "string \<Rightarrow> nat" where
  "decimal_value s = foldl (\<lambda>n c. 10 * n + nat (digit_value c)) 0 s"

definition compare_numeric :: "string \<Rightarrow> string \<Rightarrow> int" where
  "compare_numeric a b =
     (if a \<noteq> [] \<and> b \<noteq> [] \<and> list_all is_digit a \<and> list_all is_digit b
      then sgn (int (decimal_value a) - int (decimal_value b))
      else compare_code_units a b)"

definition numbered_document :: document where
  "numbered_document =
     [\<lparr>parentElement = None, attributes = [], classList = [''nav-files-container'']\<rparr>,
      tree_item (Some 0) [], tree_title 1 ''1'',
      tree_item (Some 0) [], tree_title 3 ''01'']"

definition numbered_vault :: vault where
  "numbered_vault =
     \<lparr>adapter_list = map_of [(''/'', [''1'', ''01''])], configDir = ''.obsidian''\<rparr>"

definition numbered_vault_reordered :: vault where
  "numbered_vault_reordered =
     \<lparr>adapter_list = map_of [(''/'', [''01'', ''1''])], configDir = ''.obsidian''\<rparr>"

definition plain_settings :: RainbowColoredSidebarSettings where
  "plain_settings = \<lparr>scheme = ''csDefault'', increaseContrast = False, folderList = Some []\<rparr>"

text \<open>
  A folder whose name holds a double quote, before the folder \<open>c\<close> in the sorted
  listing; both are shown in the tree.
\<close>

definition quoted_name :: string where
  "quoted_name = ''a'' @ [CHR 0x22] @ ''b''"

definition quoted_document :: document where
  "quoted_document =
     [\<lparr>parentElement = None, attributes = [], classList = [''nav-files-container'']\<rparr>,
      tree_item (Some 0) [], tree_title 1 quoted_name,
      tree_item (Some 0) [], tree_title 3 ''c'']"

definition quoted_vault :: vault where
  "quoted_vault =
     \<lparr>adapter_list = map_of [(''/'', [''c'', quoted_name])], configDir = ''.obsidian''\<rparr>"

text \<open>
  The hidden folder \<open>.b\<close> and a visible folder whose name is a backslash followed by
  \<open>2e b\<close>: in a style sheet string this is the escape of the dot, a space that ends the
  escape, and \<open>b\<close>.
\<close>

definition escaped_name :: string where
  "escaped_name = CHR 0x5C # ''2e b''"

definition escaped_document :: document where
  "escaped_document =
     [\<lparr>parentElement = None, attributes = [], classList = [''nav-files-container'']\<rparr>,
      tree_item (Some 0) [], tree_title 1 ''.b'',
      tree_item (Some 0) [], tree_title 3 escaped_name]"

text \<open>
  An attribute mutation below the observed node, as the class that the pass adds to an
  item is.
\<close>

definition class_mutation :: mutation where
  "class_mutation = \<lparr>kind = Attributes, place = In_subtree\<rparr>"

definition child_mutation :: mutation where
  "child_mutation = \<lparr>kind = ChildList, place = In_subtree\<rparr>"

section \<open>Properties of the styling pass\<close>

subsection \<open>The pass only appends class tokens\<close>

lemma adds_only_refl: "adds_only A e e"
  by (simp add: adds_only_def)

lemma adds_only_trans:
  assumes "adds_only A e1 e2" and "adds_only A e2 e3"
  shows "adds_only A e1 e3"
proof -
  obtain xs where xs: "classList e2 = classList e1 @ xs" "list_all A xs"
    using assms(1) unfolding adds_only_def by (metis append_take_drop_id)
  obtain ys where ys: "classList e3 = classList e2 @ ys" "list_all A ys"
    using assms(2) unfolding adds_only_def by (metis append_take_drop_id)
  show ?thesis
    using assms xs ys by (simp add: adds_only_def)
qed

lemma adds_only_classList_add:
  "A c \<Longrightarrow> adds_only A e (e\<lparr>classList := classList_add c (classList e)\<rparr>)"
  by (simp add: adds_only_def classList_add_def)

lemma adds_only_subset: "adds_only A e e' \<Longrightarrow> set (classList e) \<subseteq> set (classList e')"
  unfolding adds_only_def by (metis set_take_subset)

lemma doc_adds_refl: "list_all2 (adds_only A) d d"
  by (simp add: list_all2_refl adds_only_refl)

lemma doc_adds_trans:
  "list_all2 (adds_only A) d1 d2 \<Longrightarrow> list_all2 (adds_only A) d2 d3
     \<Longrightarrow> list_all2 (adds_only A) d1 d3"
  using list_all2_trans[of "adds_only A" "adds_only A" "adds_only A" d1 d2 d3] adds_only_trans
  by blast

lemma length_doc_adds: "list_all2 (adds_only A) d d' \<Longrightarrow> length d' = length d"
  by (simp add: list_all2_lengthD)

lemma add_class_at_adds: "A c \<Longrightarrow> list_all2 (adds_only A) d (add_class_at q c d)"
  by (auto simp: add_class_at_def list_all2_conv_all_nth nth_list_update adds_only_refl
        adds_only_classList_add)

lemma add_class_via_path_adds: "A c \<Longrightarrow> list_all2 (adds_only A) d (add_class_via_path p c d)"
  by (auto simp: add_class_via_path_def doc_adds_refl add_class_at_adds split: option.splits)

lemma find_first_cong:
  "list_all2 (\<lambda>x y. P x = Q y) xs ys \<Longrightarrow> find_first P xs = find_first Q ys"
  by (induction xs ys rule: list_all2_induct) auto

lemma find_first_less: "find_first P xs = Some k \<Longrightarrow> k < length xs"
  by (induction xs arbitrary: k) (auto split: if_splits)

lemma doc_adds_parent_of_path:
  assumes "list_all2 (adds_only A) d d'"
  shows "parent_of_path d' p = parent_of_path d p"
proof -
  have "list_all2 (\<lambda>e e'. (data_path e = Some p) = (data_path e' = Some p)) d d'"
    using assms by (rule list_all2_mono) (simp add: adds_only_def data_path_def)
  then have q: "querySelector_data_path d' p = querySelector_data_path d p"
    unfolding querySelector_data_path_def by (simp add: find_first_cong)
  show ?thesis
  proof (cases "querySelector_data_path d p")
    case None
    then show ?thesis using q by (simp add: parent_of_path_def)
  next
    case (Some e)
    then have "e < length d"
      unfolding querySelector_data_path_def by (rule find_first_less)
    then have "parentElement (d' ! e) = parentElement (d ! e)"
      using assms by (simp add: list_all2_conv_all_nth adds_only_def)
    then show ?thesis using q Some by (simp add: parent_of_path_def)
  qed
qed

lemma doc_adds_class_kept:
  "list_all2 (adds_only A) d d' \<Longrightarrow> q < length d \<Longrightarrow> c \<in> set (classList (d ! q))
     \<Longrightarrow> c \<in> set (classList (d' ! q))"
  using adds_only_subset by (fastforce simp: list_all2_conv_all_nth)

lemma add_class_at_has: "q < length d \<Longrightarrow> c \<in> set (classList (add_class_at q c d ! q))"
  by (simp add: add_class_at_def classList_add_def)

lemma add_class_via_path_has:
  "parent_of_path d p = Some q \<Longrightarrow> q < length d \<Longrightarrow>
     c \<in> set (classList (add_class_via_path p c d ! q))"
  by (simp add: add_class_via_path_def add_class_at_has)


subsection \<open>Names that are plain in a selector\<close>

lemma css_newlines_plain: "selector_plain p \<Longrightarrow> css_newlines b p = p"
  by (induction p arbitrary: b) (auto simp: selector_plain_def)

lemma scan_string_plain:
  "selector_plain p \<Longrightarrow> scan_string In_string acc p = Matches (acc @ p)"
  by (induction p arbitrary: acc) (auto simp: selector_plain_def classify_def)

lemma selector_value_plain: "selector_plain p \<Longrightarrow> selector_value p = Matches p"
  by (simp add: selector_value_def css_newlines_plain scan_string_plain)

subsection \<open>The top-level pass\<close>

lemma style_top_adds_gen:
  assumes "\<And>k. A (rcs_item_class (Num (int (top_classIndex k))))"
  shows "list_all2 (adds_only A) d (snd (style_top i fs d))"
proof (induction fs arbitrary: i d)
  case Nil
  show ?case by (simp add: doc_adds_refl)
next
  case (Cons f fs)
  show ?case
  proof (cases "selector_value f")
    case (Matches v)
    have "list_all2 (adds_only A) d
            (add_class_via_path v (rcs_item_class (Num (int (top_classIndex i)))) d)"
      by (rule add_class_via_path_adds) (rule assms)
    then show ?thesis
      using Matches Cons.IH doc_adds_trans by fastforce
  qed (simp_all add: doc_adds_refl)
qed

lemma style_top_adds:
  "list_all2 (adds_only (\<lambda>c. True)) d (snd (style_top i fs d))"
  by (rule style_top_adds_gen) simp

lemma style_top_completed:
  "list_all selector_plain fs \<Longrightarrow> fst (style_top i fs d) = Completed"
  by (induction fs arbitrary: i d) (auto simp: selector_value_plain)

lemma style_top_assigns:
  "list_all selector_plain fs \<Longrightarrow> k < length fs \<Longrightarrow>
   parent_of_path d (fs ! k) = Some q \<Longrightarrow> q < length d \<Longrightarrow>
     rcs_item_class (Num (int (top_classIndex (i + k))))
       \<in> set (classList (snd (style_top i fs d) ! q))"
proof (induction fs arbitrary: i k d)
  case Nil
  then show ?case by simp
next
  case (Cons f fs)
  let ?c = "rcs_item_class (Num (int (top_classIndex i)))"
  let ?d1 = "add_class_via_path f ?c d"
  have step: "list_all2 (adds_only (\<lambda>c. True)) d ?d1"
    by (rule add_class_via_path_adds) simp
  have plain: "selector_plain f" "list_all selector_plain fs"
    using Cons.prems(1) by simp_all
  show ?case
  proof (cases k)
    case 0
    then have "?c \<in> set (classList (?d1 ! q))"
      using Cons.prems by (simp add: add_class_via_path_has)
    moreover have "q < length ?d1"
      using step Cons.prems(4) by (simp add: length_doc_adds)
    ultimately have "?c \<in> set (classList (snd (style_top (Suc i) fs ?d1) ! q))"
      using style_top_adds doc_adds_class_kept by blast
    then show ?thesis using 0 plain by (simp add: selector_value_plain)
  next
    case (Suc k')
    have "parent_of_path ?d1 (fs ! k') = Some q"
      using Cons.prems(3) Suc step by (simp add: doc_adds_parent_of_path)
    moreover have "q < length ?d1"
      using step Cons.prems(4) by (simp add: length_doc_adds)
    moreover have "k' < length fs" using Cons.prems(2) Suc by simp
    ultimately have "rcs_item_class (Num (int (top_classIndex (Suc i + k'))))
       \<in> set (classList (snd (style_top (Suc i) fs ?d1) ! q))"
      using Cons.IH plain by blast
    then show ?thesis using Suc plain by (simp add: selector_value_plain)
  qed
qed

subsection \<open>The pass over the designated folders\<close>

lemma style_ext_adds_gen:
  assumes "\<And>k. A (rcs_item_class (sub_classIndex n k))" and "A ''rcs-sub-item''"
  shows "list_all2 (adds_only A) d (snd (style_ext n j fs d))"
proof (induction fs arbitrary: j d)
  case Nil
  show ?case by (simp add: doc_adds_refl)
next
  case (Cons f fs)
  show ?case
  proof (cases "selector_value f")
    case (Matches v)
    let ?d1 = "add_class_via_path v (rcs_item_class (sub_classIndex n j)) d"
    let ?d2 = "add_class_via_path v ''rcs-sub-item'' ?d1"
    have "list_all2 (adds_only A) d ?d1"
      by (rule add_class_via_path_adds) (rule assms(1))
    moreover have "list_all2 (adds_only A) ?d1 ?d2"
      by (rule add_class_via_path_adds) (rule assms(2))
    moreover have "list_all2 (adds_only A) ?d2 (snd (style_ext n (Suc j) fs ?d2))"
      by (rule Cons.IH)
    ultimately have "list_all2 (adds_only A) d (snd (style_ext n (Suc j) fs ?d2))"
      using doc_adds_trans by blast
    then show ?thesis using Matches by simp
  qed (simp_all add: doc_adds_refl)
qed

lemma style_ext_adds:
  "list_all2 (adds_only (\<lambda>c. True)) d (snd (style_ext n j fs d))"
  by (rule style_ext_adds_gen) simp_all

lemma style_sub_folder_adds:
  "list_all2 (adds_only (\<lambda>c. True)) d (snd (style_sub_folder v s d))"
  by (simp add: style_sub_folder_def Let_def doc_adds_refl style_ext_adds
        split: option.splits selector_result.splits)

lemma style_subs_adds:
  "list_all2 (adds_only (\<lambda>c. True)) d (snd (style_subs v ss d))"
proof (induction ss arbitrary: d)
  case Nil
  show ?case by (simp add: doc_adds_refl)
next
  case (Cons s ss)
  obtain oc d1 where r: "style_sub_folder v s d = (oc, d1)"
    by (cases "style_sub_folder v s d")
  have a: "list_all2 (adds_only (\<lambda>c. True)) d d1"
    using style_sub_folder_adds[of d v s] r by simp
  show ?case
  proof (cases oc)
    case Completed
    then have "snd (style_subs v (s # ss) d) = snd (style_subs v ss d1)"
      using r by simp
    then show ?thesis using a Cons.IH doc_adds_trans by metis
  qed (use r a in simp_all)
qed

lemma index_sub_folders_adds:
  "list_all2 (adds_only (\<lambda>c. True)) d (snd (index_sub_folders v settings d))"
  by (simp add: index_sub_folders_def doc_adds_refl style_subs_adds split: option.splits)

subsection \<open>The sorted listing\<close>

lemma mset_insert_by: "mset (insert_by cmp x xs) = add_mset x (mset xs)"
  by (induction xs) auto

lemma mset_sort_by: "mset (sort_by cmp xs) = mset xs"
  by (induction xs) (simp_all add: sort_by_def mset_insert_by)

lemma set_sort_by: "set (sort_by cmp xs) = set xs"
  using mset_sort_by[of cmp xs] by (metis set_mset_mset)

lemma add_class_via_path_other:
  "parent_of_path d p \<noteq> Some q \<Longrightarrow> add_class_via_path p c d ! q = d ! q"
  by (auto simp: add_class_via_path_def add_class_at_def split: option.splits)

subsection \<open>Sorting and the order of the enumeration\<close>

lemma orders_strictly_total:
  "orders_strictly cmp S \<Longrightarrow> a \<in> S \<Longrightarrow> b \<in> S \<Longrightarrow> cmp a b \<le> 0 \<or> cmp b a \<le> 0"
  unfolding orders_strictly_def by blast

lemma orders_strictly_trans:
  "orders_strictly cmp S \<Longrightarrow> a \<in> S \<Longrightarrow> b \<in> S \<Longrightarrow> c \<in> S \<Longrightarrow>
     cmp a b \<le> 0 \<Longrightarrow> cmp b c \<le> 0 \<Longrightarrow> cmp a c \<le> 0"
  unfolding orders_strictly_def by blast

lemma orders_strictly_antisym:
  "orders_strictly cmp S \<Longrightarrow> a \<in> S \<Longrightarrow> b \<in> S \<Longrightarrow>
     cmp a b \<le> 0 \<Longrightarrow> cmp b a \<le> 0 \<Longrightarrow> a = b"
  unfolding orders_strictly_def by blast

lemma set_insert_by: "set (insert_by cmp x xs) = insert x (set xs)"
  by (induction xs) auto

lemma sorted_insert_by:
  assumes "orders_strictly cmp S" and "x \<in> S"
  shows "set xs \<subseteq> S \<Longrightarrow> sorted_wrt (\<lambda>a b. cmp a b \<le> 0) xs
           \<Longrightarrow> sorted_wrt (\<lambda>a b. cmp a b \<le> 0) (insert_by cmp x xs)"
proof (induction xs)
  case Nil
  show ?case by simp
next
  case (Cons y ys)
  have yS: "y \<in> S" and ysS: "set ys \<subseteq> S"
    using Cons.prems(1) by simp_all
  have y_le: "\<forall>z\<in>set ys. cmp y z \<le> 0" and ys_sorted: "sorted_wrt (\<lambda>a b. cmp a b \<le> 0) ys"
    using Cons.prems(2) by simp_all
  show ?case
  proof (cases "cmp x y \<le> 0")
    case True
    have "\<forall>z\<in>set ys. cmp x z \<le> 0"
    proof
      fix z assume z: "z \<in> set ys"
      then have "cmp y z \<le> 0" and "z \<in> S" using y_le ysS by auto
      then show "cmp x z \<le> 0"
        using orders_strictly_trans[OF assms(1) assms(2) yS, of z] True by blast
    qed
    then have "sorted_wrt (\<lambda>a b. cmp a b \<le> 0) (x # y # ys)"
      using True y_le ys_sorted by simp
    then show ?thesis using True by simp
  next
    case False
    then have yx: "cmp y x \<le> 0"
      using orders_strictly_total[OF assms(1) assms(2) yS] by blast
    have "sorted_wrt (\<lambda>a b. cmp a b \<le> 0) (insert_by cmp x ys)"
      using Cons.IH ysS ys_sorted by blast
    moreover have "\<forall>z\<in>set (insert_by cmp x ys). cmp y z \<le> 0"
      using yx y_le by (simp add: set_insert_by)
    ultimately have "sorted_wrt (\<lambda>a b. cmp a b \<le> 0) (y # insert_by cmp x ys)"
      by simp
    then show ?thesis using False by simp
  qed
qed

lemma sorted_sort_by:
  assumes "orders_strictly cmp S"
  shows "set xs \<subseteq> S \<Longrightarrow> sorted_wrt (\<lambda>a b. cmp a b \<le> 0) (sort_by cmp xs)"
proof (induction xs)
  case Nil
  show ?case by (simp add: sort_by_def)
next
  case (Cons x xs)
  have "sorted_wrt (\<lambda>a b. cmp a b \<le> 0) (insert_by cmp x (sort_by cmp xs))"
    using Cons assms by (intro sorted_insert_by[where S = S]) (simp_all add: set_sort_by)
  then show ?case by (simp add: sort_by_def)
qed

lemma sorted_wrt_same_mset:
  assumes "\<forall>a\<in>set xs. \<forall>b\<in>set xs. R a b \<and> R b a \<longrightarrow> a = b"
      and "sorted_wrt R xs" and "sorted_wrt R ys" and "mset xs = mset ys"
  shows "xs = ys"
  using assms
proof (induction xs arbitrary: ys)
  case Nil
  then show ?case by simp
next
  case (Cons x xs)
  then obtain y ys' where ys: "ys = y # ys'"
    by (cases ys) auto
  have sets: "set (x # xs) = set (y # ys')"
    using Cons.prems(4) ys by (metis set_mset_mset)
  have "x = y"
  proof (rule ccontr)
    assume ne: "x \<noteq> y"
    then have "x \<in> set ys'" and "y \<in> set xs"
      using sets by auto
    then have "R y x" and "R x y"
      using Cons.prems(2,3) ys by auto
    moreover have "y \<in> set (x # xs)" using sets by simp
    ultimately show False using Cons.prems(1) ne by auto
  qed
  moreover have "xs = ys'"
  proof (rule Cons.IH)
    show "\<forall>a\<in>set xs. \<forall>b\<in>set xs. R a b \<and> R b a \<longrightarrow> a = b"
      using Cons.prems(1) by simp
    show "sorted_wrt R xs" using Cons.prems(2) by simp
    show "sorted_wrt R ys'" using Cons.prems(3) ys by simp
    show "mset xs = mset ys'" using Cons.prems(4) ys \<open>x = y\<close> by simp
  qed
  ultimately show ?case using ys by simp
qed

lemma sort_by_same_mset:
  assumes "orders_strictly cmp (set xs)" and "mset xs = mset ys"
  shows "sort_by cmp xs = sort_by cmp ys"
proof (rule sorted_wrt_same_mset)
  have sets: "set ys = set xs"
    using assms(2) by (metis set_mset_mset)
  show "\<forall>a\<in>set (sort_by cmp xs). \<forall>b\<in>set (sort_by cmp xs). cmp a b \<le> 0 \<and> cmp b a \<le> 0 \<longrightarrow> a = b"
    unfolding set_sort_by using orders_strictly_antisym[OF assms(1)] by blast
  show "sorted_wrt (\<lambda>a b. cmp a b \<le> 0) (sort_by cmp xs)"
    using assms(1) by (rule sorted_sort_by) simp
  show "sorted_wrt (\<lambda>a b. cmp a b \<le> 0) (sort_by cmp ys)"
    using assms(1) by (rule sorted_sort_by) (simp add: sets)
  show "mset (sort_by cmp xs) = mset (sort_by cmp ys)"
    using assms(2) by (simp add: mset_sort_by)
qed

subsection \<open>Decimal numerals\<close>

lemma of_char_digit_char: "d < 10 \<Longrightarrow> (of_char (digit_char d) :: nat) = 48 + d"
  by (simp add: digit_char_def)

lemma is_digit_digit_char: "d < 10 \<Longrightarrow> is_digit (digit_char d)"
  by (simp add: is_digit_def of_char_digit_char)

lemma digit_char_inj:
  assumes "a < 10" and "b < 10" and "digit_char a = digit_char b"
  shows "a = b"
proof -
  have "(of_char (digit_char a) :: nat) = of_char (digit_char b)"
    by (simp only: assms(3))
  then have "48 + a = 48 + b"
    by (simp only: of_char_digit_char[OF assms(1)] of_char_digit_char[OF assms(2)])
  then show ?thesis by simp
qed

lemma show_nat_nonempty: "show_nat n \<noteq> []"
  by (subst show_nat.simps) simp

lemma last_show_nat: "last (show_nat n) = digit_char (n mod 10)"
  by (subst show_nat.simps) simp

lemma butlast_show_nat:
  "butlast (show_nat n) = (if n < 10 then [] else show_nat (n div 10))"
  by (subst show_nat.simps) simp

lemma show_nat_inj: "show_nat a = show_nat b \<Longrightarrow> a = b"
proof (induction a arbitrary: b rule: less_induct)
  case (less a)
  have l: "digit_char (a mod 10) = digit_char (b mod 10)"
    using less.prems last_show_nat by metis
  then have m: "a mod 10 = b mod 10"
    by (intro digit_char_inj) simp_all
  have bl: "butlast (show_nat a) = butlast (show_nat b)"
    using less.prems by simp
  show ?case
  proof (cases "a < 10")
    case True
    then have "b < 10"
      using bl show_nat_nonempty[of "b div 10"] by (auto simp: butlast_show_nat split: if_splits)
    then show ?thesis using True m by simp
  next
    case False
    then have b: "\<not> b < 10"
      using bl show_nat_nonempty[of "a div 10"] by (auto simp: butlast_show_nat split: if_splits)
    then have "show_nat (a div 10) = show_nat (b div 10)"
      using bl False by (simp add: butlast_show_nat)
    moreover have "a div 10 < a" using False by simp
    ultimately have "a div 10 = b div 10"
      using less.IH by blast
    then show ?thesis using m by (metis div_mult_mod_eq)
  qed
qed

lemma last_rcs_item_class:
  "0 \<le> n \<Longrightarrow> last (rcs_item_class (Num n)) = digit_char (nat n mod 10)"
  by (simp add: show_int_def show_nat_nonempty last_show_nat)


subsection \<open>The class tokens that a run appends\<close>

lemma rcs_class_1_16_item:
  "1 \<le> k \<Longrightarrow> k \<le> 16 \<Longrightarrow> rcs_class_1_16 (rcs_item_class (Num (int k)))"
  unfolding rcs_class_1_16_def by (intro disjI2) (simp only: set_map set_upt, rule imageI, simp)

lemma top_class_allowed: "rcs_class_1_16 (rcs_item_class (Num (int (top_classIndex i))))"
  by (rule rcs_class_1_16_item) (simp_all add: top_classIndex_def)

lemma js_rem_nonneg: "0 \<le> a \<Longrightarrow> js_rem a 16 = a mod 16"
  by (cases "a = 0") (simp_all add: js_rem_def)

lemma Number_concat_1_digit:
  "is_digit c \<Longrightarrow> \<exists>m. Number_concat_1 c = Some (Num m) \<and> 1 \<le> m"
  by (simp add: Number_concat_1_def is_digit_def digit_value_def)

lemma sub_class_allowed:
  assumes "1 \<le> m"
  shows "rcs_class_1_16 (rcs_item_class (sub_classIndex (Num m) j))"
proof -
  let ?r = "(m + 1 + int j) mod 16"
  have r: "0 \<le> ?r" "?r < 16"
    by simp_all
  have "sub_classIndex (Num m) j = Num (?r + 1)"
    using assms by (simp add: js_rem_nonneg)
  also have "\<dots> = Num (int (nat (?r + 1)))"
    using r by simp
  finally have eq: "sub_classIndex (Num m) j = Num (int (nat (?r + 1)))" .
  have "1 \<le> nat (?r + 1)" and "nat (?r + 1) \<le> 16"
    using r by simp_all
  then show ?thesis
    unfolding eq by (rule rcs_class_1_16_item)
qed

lemma sub_item_not_rcs_item: "\<not> includes_str ''rcs-sub-item'' ''rcs-item''"
  by (simp add: startsWith_def)

lemma rcs_class_1_16_numbered:
  assumes "rcs_class_1_16 c"
  shows "\<not> includes_str c ''rcs-item'' \<or> (c \<noteq> [] \<and> is_digit (last c))"
proof (cases "c = ''rcs-sub-item''")
  case True
  then show ?thesis using sub_item_not_rcs_item by simp
next
  case False
  then obtain k where "c = rcs_item_class (Num (int k))"
    using assms unfolding rcs_class_1_16_def by auto
  then have "c \<noteq> []" and "last c = digit_char (k mod 10)"
    using last_rcs_item_class[of "int k"] by simp_all
  then show ?thesis by (simp add: is_digit_digit_char)
qed

lemma first_rcs_item_Some:
  "first_rcs_item cs = Some c \<Longrightarrow> c \<in> set cs \<and> includes_str c ''rcs-item''"
proof -
  assume "first_rcs_item cs = Some c"
  then obtain rest where "filter (\<lambda>item. includes_str item ''rcs-item'') cs = c # rest"
    by (auto simp: first_rcs_item_def split: list.splits)
  then have "c \<in> set (filter (\<lambda>item. includes_str item ''rcs-item'') cs)"
    by simp
  then show ?thesis by simp
qed

lemma rcs_items_numbered_iff:
  "rcs_items_numbered d \<longleftrightarrow>
     (\<forall>e\<in>set d. \<forall>c\<in>set (classList e). includes_str c ''rcs-item'' \<longrightarrow> c \<noteq> [] \<and> is_digit (last c))"
  unfolding rcs_items_numbered_def list_all_iff by blast

lemma numbered_first_rcs_item:
  assumes "rcs_items_numbered d" and "q < length d"
      and "first_rcs_item (classList (d ! q)) = Some c"
  shows "c \<noteq> [] \<and> is_digit (last c)"
proof -
  have "c \<in> set (classList (d ! q))" and inc: "includes_str c ''rcs-item''"
    using first_rcs_item_Some[OF assms(3)] by simp_all
  moreover have "d ! q \<in> set d" using assms(2) by simp
  ultimately show ?thesis
    using assms(1) inc unfolding rcs_items_numbered_iff by blast
qed

lemma style_sub_folder_adds_1_16:
  assumes "rcs_items_numbered d"
  shows "list_all2 (adds_only rcs_class_1_16) d (snd (style_sub_folder v s d))"
proof -
  have ext: "list_all2 (adds_only rcs_class_1_16) d (snd (style_ext n 0 fs d))"
    if q: "q < length d" and c: "first_rcs_item (classList (d ! q)) = Some c"
      and n: "Number_concat_1 (last c) = Some n" for q c n fs
  proof -
    have "is_digit (last c)"
      using numbered_first_rcs_item[OF assms q c] by simp
    then obtain m where "n = Num m" and "1 \<le> m"
      using Number_concat_1_digit n by fastforce
    then show ?thesis
      using sub_class_allowed by (intro style_ext_adds_gen) (simp_all add: rcs_class_1_16_def)
  qed
  show ?thesis
    by (simp add: style_sub_folder_def Let_def doc_adds_refl ext
          split: option.splits selector_result.splits)
qed

lemma adds_only_class_cases:
  assumes "adds_only A e e'" and "c \<in> set (classList e')"
  shows "c \<in> set (classList e) \<or> A c"
proof -
  let ?n = "length (classList e)"
  have "set (classList e') = set (take ?n (classList e')) \<union> set (drop ?n (classList e'))"
    by (metis append_take_drop_id set_append)
  moreover have "take ?n (classList e') = classList e"
    and "\<forall>x\<in>set (drop ?n (classList e')). A x"
    using assms(1) by (simp_all add: adds_only_def list_all_iff)
  ultimately show ?thesis using assms(2) by auto
qed

lemma numbered_kept:
  assumes "rcs_items_numbered d" and "list_all2 (adds_only rcs_class_1_16) d d'"
  shows "rcs_items_numbered d'"
  unfolding rcs_items_numbered_iff
proof (intro ballI impI)
  fix e' c
  assume e': "e' \<in> set d'" and c: "c \<in> set (classList e')" and inc: "includes_str c ''rcs-item''"
  obtain k where k: "k < length d'" "e' = d' ! k"
    using e' by (metis in_set_conv_nth)
  have kd: "k < length d"
    using assms(2) k(1) by (simp add: list_all2_lengthD)
  have "adds_only rcs_class_1_16 (d ! k) e'"
    using assms(2) k kd by (simp add: list_all2_nthD)
  then have "c \<in> set (classList (d ! k)) \<or> rcs_class_1_16 c"
    using c by (rule adds_only_class_cases)
  then show "c \<noteq> [] \<and> is_digit (last c)"
  proof
    assume "c \<in> set (classList (d ! k))"
    moreover have "d ! k \<in> set d" using kd by simp
    ultimately show ?thesis
      using assms(1) inc unfolding rcs_items_numbered_iff by blast
  next
    assume "rcs_class_1_16 c"
    then show ?thesis using rcs_class_1_16_numbered inc by blast
  qed
qed

lemma style_subs_adds_1_16:
  "rcs_items_numbered d \<Longrightarrow> list_all2 (adds_only rcs_class_1_16) d (snd (style_subs v ss d))"
proof (induction ss arbitrary: d)
  case Nil
  show ?case by (simp add: doc_adds_refl)
next
  case (Cons s ss)
  obtain oc d1 where r: "style_sub_folder v s d = (oc, d1)"
    by (cases "style_sub_folder v s d")
  have a: "list_all2 (adds_only rcs_class_1_16) d d1"
    using style_sub_folder_adds_1_16[OF Cons.prems, of v s] r by simp
  show ?case
  proof (cases oc)
    case Completed
    have "rcs_items_numbered d1"
      using Cons.prems a by (rule numbered_kept)
    then have "list_all2 (adds_only rcs_class_1_16) d1 (snd (style_subs v ss d1))"
      by (rule Cons.IH)
    then have "list_all2 (adds_only rcs_class_1_16) d (snd (style_subs v ss d1))"
      using a doc_adds_trans by blast
    then show ?thesis using r Completed by simp
  qed (use r a in simp_all)
qed

text \<open>
  Claim C6, as amended. On a tree in which every class token that contains \<open>rcs-item\<close>
  ends in a digit, a run inside the model leaves the elements, their order, their parents
  and their attributes (the \<open>data-path\<close> among them) as they were, keeps the class tokens
  that were there, and appends only \<open>rcs-sub-item\<close> and tokens \<open>rcs-item-k\<close> with \<open>k\<close> from
  1 to 16. The tree after the run is again of this kind.
\<close>

theorem styling_only_adds_rcs_classes:
  assumes "rcs_items_numbered d"
      and "fst (setFolderStyling localeCompare v settings d) \<noteq> Unmodelled"
  shows "list_all2 (adds_only rcs_class_1_16) d (snd (setFolderStyling localeCompare v settings d))
         \<and> rcs_items_numbered (snd (setFolderStyling localeCompare v settings d))"
proof -
  have "list_all2 (adds_only rcs_class_1_16) d (snd (setFolderStyling localeCompare v settings d))"
  proof (cases "adapter_list v ''/''")
    case None
    then show ?thesis by (simp add: setFolderStyling_def doc_adds_refl)
  next
    case (Some listing)
    obtain oc d1 where top: "index_top_level localeCompare listing d = (oc, d1)"
      by (cases "index_top_level localeCompare listing d")
    have a: "list_all2 (adds_only rcs_class_1_16) d d1"
      using style_top_adds_gen[where A = rcs_class_1_16 and d = d and i = 0
          and fs = "sort_by localeCompare (filter visible listing)"] top_class_allowed top
      by (simp add: index_top_level_def)
    show ?thesis
    proof (cases oc)
      case Completed
      have "rcs_items_numbered d1"
        using assms(1) a by (rule numbered_kept)
      then have "list_all2 (adds_only rcs_class_1_16) d1 (snd (index_sub_folders v settings d1))"
        by (simp add: index_sub_folders_def doc_adds_refl style_subs_adds_1_16 split: option.splits)
      then have "list_all2 (adds_only rcs_class_1_16) d (snd (index_sub_folders v settings d1))"
        using a doc_adds_trans by blast
      then show ?thesis using Some top Completed by (simp add: setFolderStyling_def)
    qed (use Some top a in \<open>simp_all add: setFolderStyling_def\<close>)
  qed
  then show ?thesis
    using assms(1) numbered_kept by blast
qed


theorem styling_only_adds_rcs_classes_witness:
  "list_all2 (adds_only rcs_class_1_16) example_document
     (snd (setFolderStyling compare_code_units example_vault example_settings example_document))"
proof -
  have h1: "rcs_items_numbered example_document"
    by code_simp
  have h2: "fst (setFolderStyling compare_code_units example_vault example_settings
                   example_document) \<noteq> Unmodelled"
    by code_simp
  show ?thesis
    using styling_only_adds_rcs_classes[OF h1 h2] by blast
qed

text \<open>
  The claim as stated fails on a tree in which the item of a designated folder's parent
  carries a foreign token that contains \<open>rcs-item\<close>: the last character of the token is
  not a digit, the conversion gives \<open>NaN\<close>, and the sub-folder is given \<open>rcs-item-NaN\<close>.
\<close>

theorem foreign_class_counterexample:
  "fst (setFolderStyling compare_code_units example_vault example_settings
          example_document_foreign) = Completed
   \<and> classList (snd (setFolderStyling compare_code_units example_vault example_settings
                        example_document_foreign) ! 4)
     = [''tree-item'', ''nav-folder'', ''rcs-item-NaN'', ''rcs-sub-item'']
   \<and> \<not> rcs_class_1_16 ''rcs-item-NaN''
   \<and> \<not> list_all2 (adds_only rcs_class_1_16) example_document_foreign
         (snd (setFolderStyling compare_code_units example_vault example_settings
                 example_document_foreign))"
  by code_simp


subsection \<open>The class of a sub-folder\<close>






text \<open>
  Claim C3, on the code. The start of a group is not the parent's index plus an offset:
  the digit \<open>1\<close> is appended to the last character of the parent's class token before
  the conversion. With five folders, \<open>d\<close> has index 4 and \<open>e\<close> has index 5; the sub-folder
  of \<open>d\<close> is given index 11, and the sub-folder of \<open>e\<close> is given index 5, the index of
  \<open>e\<close> itself.
\<close>

theorem group_start_evaluation:
  "fst (setFolderStyling compare_code_units five_vault five_settings five_document) = Completed
   \<and> map (\<lambda>i. classList (snd (setFolderStyling compare_code_units five_vault five_settings
                                five_document) ! i)) [7, 10, 12, 15]
     = [[''tree-item'', ''nav-folder'', ''rcs-item-4''],
        [''tree-item'', ''nav-folder'', ''rcs-item-11'', ''rcs-sub-item''],
        [''tree-item'', ''nav-folder'', ''rcs-item-5''],
        [''tree-item'', ''nav-folder'', ''rcs-item-5'', ''rcs-sub-item'']]
   \<and> Number_concat_1 CHR ''4'' = Some (Num 41)
   \<and> Number_concat_1 CHR ''5'' = Some (Num 51)"
  by code_simp


section \<open>Properties of the colour scheme\<close>

lemma setProperty_plain:
  "css_value_plain c \<Longrightarrow> setProperty name c st = Some (st(name \<mapsto> c))"
  by (auto simp: setProperty_def css_value_plain_def)

lemma color_name_inj:
  "''--rcs-color-'' @ show_nat a = ''--rcs-color-'' @ show_nat b \<Longrightarrow> a = b"
  using show_nat_inj by simp

lemma set_colors_plain:
  "list_all css_value_plain cs \<Longrightarrow>
     \<exists>st'. set_colors i cs st = Some st'
       \<and> (\<forall>k<length cs. st' (''--rcs-color-'' @ show_nat (i + k + 1)) = Some (cs ! k))
       \<and> (\<forall>name. (\<forall>k<length cs. name \<noteq> ''--rcs-color-'' @ show_nat (i + k + 1))
              \<longrightarrow> st' name = st name)"
proof (induction cs arbitrary: i st)
  case Nil
  show ?case by simp
next
  case (Cons c cs)
  let ?n = "''--rcs-color-'' @ show_nat (i + 1)"
  let ?st1 = "st(?n \<mapsto> c)"
  have c: "css_value_plain c" and cs: "list_all css_value_plain cs"
    using Cons.prems by simp_all
  obtain st' where r: "set_colors (Suc i) cs ?st1 = Some st'"
    and set: "\<forall>k<length cs. st' (''--rcs-color-'' @ show_nat (Suc i + k + 1)) = Some (cs ! k)"
    and keep: "\<forall>name. (\<forall>k<length cs. name \<noteq> ''--rcs-color-'' @ show_nat (Suc i + k + 1))
                 \<longrightarrow> st' name = ?st1 name"
    using Cons.IH[OF cs, of "Suc i" ?st1] by blast
  have whole: "set_colors i (c # cs) st = Some st'"
    using r c by (simp add: setProperty_plain)
  have first: "st' ?n = Some c"
  proof -
    have "\<forall>k<length cs. ?n \<noteq> ''--rcs-color-'' @ show_nat (Suc i + k + 1)"
    proof (intro allI impI notI)
      fix k assume "?n = ''--rcs-color-'' @ show_nat (Suc i + k + 1)"
      then have "i + 1 = Suc i + k + 1" by (rule color_name_inj)
      then show False by simp
    qed
    then have "st' ?n = ?st1 ?n" using keep by blast
    then show ?thesis by simp
  qed
  have a: "\<forall>k<length (c # cs). st' (''--rcs-color-'' @ show_nat (i + k + 1)) = Some ((c # cs) ! k)"
  proof (intro allI impI)
    fix k assume k: "k < length (c # cs)"
    show "st' (''--rcs-color-'' @ show_nat (i + k + 1)) = Some ((c # cs) ! k)"
    proof (cases k)
      case 0
      then show ?thesis using first by simp
    next
      case (Suc k')
      then have "k' < length cs" using k by simp
      then have "st' (''--rcs-color-'' @ show_nat (Suc i + k' + 1)) = Some (cs ! k')"
        using set by blast
      then show ?thesis using Suc by simp
    qed
  qed
  have b: "\<forall>name. (\<forall>k<length (c # cs). name \<noteq> ''--rcs-color-'' @ show_nat (i + k + 1))
              \<longrightarrow> st' name = st name"
  proof (intro allI impI)
    fix name
    assume other: "\<forall>k<length (c # cs). name \<noteq> ''--rcs-color-'' @ show_nat (i + k + 1)"
    have "name \<noteq> ?n" using other by fastforce
    moreover have "\<forall>k<length cs. name \<noteq> ''--rcs-color-'' @ show_nat (Suc i + k + 1)"
    proof (intro allI impI)
      fix k assume "k < length cs"
      then have "Suc k < length (c # cs)" by simp
      then have "name \<noteq> ''--rcs-color-'' @ show_nat (i + Suc k + 1)" using other by blast
      then show "name \<noteq> ''--rcs-color-'' @ show_nat (Suc i + k + 1)" by simp
    qed
    ultimately show "st' name = st name" using keep by simp
  qed
  show ?case using whole a b by blast
qed


lemma setColorScheme_plain:
  assumes "schemes (scheme settings) = Some colors" and "list_all css_value_plain colors"
  shows "\<exists>st'. setColorScheme schemes settings root =
            (Completed,
             root\<lparr>style := st',
                  attrs := (if increaseContrast settings
                            then (attrs root)(''data-rcs-a11y'' \<mapsto> ''1'')
                            else (attrs root)(''data-rcs-a11y'' := None))\<rparr>)
          \<and> (\<forall>k<length colors. st' (''--rcs-color-'' @ show_nat (k + 1)) = Some (colors ! k))
          \<and> (\<forall>name. (\<forall>k<length colors. name \<noteq> ''--rcs-color-'' @ show_nat (k + 1))
                 \<longrightarrow> st' name = style root name)"
proof -
  obtain st' where run: "set_colors 0 colors (style root) = Some st'"
    and set: "\<forall>k<length colors. st' (''--rcs-color-'' @ show_nat (0 + k + 1)) = Some (colors ! k)"
    and keep: "\<forall>name. (\<forall>k<length colors. name \<noteq> ''--rcs-color-'' @ show_nat (0 + k + 1))
                 \<longrightarrow> st' name = style root name"
    using set_colors_plain[OF assms(2), of 0 "style root"] by blast
  have "setColorScheme schemes settings root =
            (Completed,
             root\<lparr>style := st',
                  attrs := (if increaseContrast settings
                            then (attrs root)(''data-rcs-a11y'' \<mapsto> ''1'')
                            else (attrs root)(''data-rcs-a11y'' := None))\<rparr>)"
    using assms(1) run by (simp add: setColorScheme_def)
  moreover have "\<forall>k<length colors. st' (''--rcs-color-'' @ show_nat (k + 1)) = Some (colors ! k)"
    using set by simp
  moreover have "\<forall>name. (\<forall>k<length colors. name \<noteq> ''--rcs-color-'' @ show_nat (k + 1))
                 \<longrightarrow> st' name = style root name"
    using keep by simp
  ultimately show ?thesis by blast
qed



text \<open>
  Claim C8, as amended. After a run of \<open>setColorScheme\<close> whose scheme name is in the
  table (with plain colour values), the root carries \<open>data-rcs-a11y\<close> exactly when
  \<open>increaseContrast\<close> is set. A second run with the setting toggled flips the attribute
  and leaves every other attribute and the inline style as the first run left them.
\<close>

theorem contrast_attribute_follows_setting:
  assumes "schemes (scheme settings) = Some colors"
      and "list_all css_value_plain colors"
      and "root1 = snd (setColorScheme schemes settings root)"
      and "root2 = snd (setColorScheme schemes
                          (settings\<lparr>increaseContrast := \<not> increaseContrast settings\<rparr>) root1)"
  shows "(attrs root1 ''data-rcs-a11y'' \<noteq> None) = increaseContrast settings
         \<and> (attrs root2 ''data-rcs-a11y'' \<noteq> None) = (\<not> increaseContrast settings)
         \<and> (\<forall>a. a \<noteq> ''data-rcs-a11y'' \<longrightarrow> attrs root2 a = attrs root1 a)
         \<and> style root2 = style root1"
proof -
  let ?settings2 = "settings\<lparr>increaseContrast := \<not> increaseContrast settings\<rparr>"
  obtain st1 where run1: "setColorScheme schemes settings root =
            (Completed,
             root\<lparr>style := st1,
                  attrs := (if increaseContrast settings
                            then (attrs root)(''data-rcs-a11y'' \<mapsto> ''1'')
                            else (attrs root)(''data-rcs-a11y'' := None))\<rparr>)"
    and set1: "\<forall>k<length colors. st1 (''--rcs-color-'' @ show_nat (k + 1)) = Some (colors ! k)"
    using setColorScheme_plain[where schemes = schemes and settings = settings
        and colors = colors and root = root, OF assms(1,2)] by blast
  have in_table: "schemes (scheme ?settings2) = Some colors"
    using assms(1) by simp
  obtain st2 where run2: "setColorScheme schemes ?settings2 root1 =
            (Completed,
             root1\<lparr>style := st2,
                   attrs := (if increaseContrast ?settings2
                             then (attrs root1)(''data-rcs-a11y'' \<mapsto> ''1'')
                             else (attrs root1)(''data-rcs-a11y'' := None))\<rparr>)"
    and set2: "\<forall>k<length colors. st2 (''--rcs-color-'' @ show_nat (k + 1)) = Some (colors ! k)"
    and keep2: "\<forall>name. (\<forall>k<length colors. name \<noteq> ''--rcs-color-'' @ show_nat (k + 1))
                  \<longrightarrow> st2 name = style root1 name"
    using setColorScheme_plain[where schemes = schemes and settings = ?settings2
        and colors = colors and root = root1, OF in_table assms(2)] by blast
  have s1: "style root1 = st1"
    using assms(3) run1 by simp
  have "st2 name = st1 name" for name
  proof (cases "\<forall>k<length colors. name \<noteq> ''--rcs-color-'' @ show_nat (k + 1)")
    case True
    then show ?thesis using keep2 s1 by simp
  next
    case False
    then obtain k where "k < length colors" and "name = ''--rcs-color-'' @ show_nat (k + 1)"
      by blast
    then show ?thesis using set1 set2 by simp
  qed
  then have "st2 = st1" by (rule ext)
  then have "style root2 = style root1"
    using assms(4) run2 s1 by simp
  moreover have "(attrs root1 ''data-rcs-a11y'' \<noteq> None) = increaseContrast settings"
    using assms(3) run1 by simp
  moreover have "(attrs root2 ''data-rcs-a11y'' \<noteq> None) = (\<not> increaseContrast settings)"
    using assms(4) run2 by simp
  moreover have "\<forall>a. a \<noteq> ''data-rcs-a11y'' \<longrightarrow> attrs root2 a = attrs root1 a"
    using assms(4) run2 by simp
  ultimately show ?thesis by blast
qed

theorem contrast_attribute_follows_setting_witness:
  "(attrs (snd (setColorScheme example_schemes example_settings example_root)) ''data-rcs-a11y''
      \<noteq> None) = increaseContrast example_settings
   \<and> (attrs (snd (setColorScheme example_schemes
                    (example_settings\<lparr>increaseContrast := \<not> increaseContrast example_settings\<rparr>)
                    (snd (setColorScheme example_schemes example_settings example_root))))
         ''data-rcs-a11y'' \<noteq> None) = (\<not> increaseContrast example_settings)
   \<and> style (snd (setColorScheme example_schemes
                   (example_settings\<lparr>increaseContrast := \<not> increaseContrast example_settings\<rparr>)
                   (snd (setColorScheme example_schemes example_settings example_root))))
       = style (snd (setColorScheme example_schemes example_settings example_root))"
proof -
  have h1: "example_schemes (scheme example_settings) = Some [''#e40303'', ''#ff8c00'', ''#ffed00'']"
    by (simp add: example_schemes_def example_settings_def)
  have h2: "list_all css_value_plain [''#e40303'', ''#ff8c00'', ''#ffed00'']"
    by (simp add: css_value_plain_def css_value_char_def)
  show ?thesis
    using contrast_attribute_follows_setting[where schemes = example_schemes
        and settings = example_settings and root = example_root
        and colors = "[''#e40303'', ''#ff8c00'', ''#ffed00'']", OF h1 h2 refl refl]
    by blast
qed

text \<open>
  The claim as stated fails for a scheme name that is not in the table: the run stops
  with a type error before it reaches the attribute, and the root stays without
  \<open>data-rcs-a11y\<close> although \<open>increaseContrast\<close> is set.
\<close>

theorem contrast_attribute_counterexample:
  "fst (setColorScheme example_schemes stale_settings example_root) = TypeError
   \<and> attrs (snd (setColorScheme example_schemes stale_settings example_root)) ''data-rcs-a11y''
       = None
   \<and> increaseContrast stale_settings"
  by (simp add: setColorScheme_def example_schemes_def stale_settings_def example_root_def)


section \<open>Properties of the loaded settings\<close>

lemma foldl_set_own_apply:
  "foldl set_own t kvs k =
     (if k = ''__proto__'' then t k
      else case map_of (rev kvs) k of None \<Rightarrow> t k | Some v \<Rightarrow> Some v)"
proof (induction kvs rule: rev_induct)
  case Nil
  show ?case by simp
next
  case (snoc kv kvs)
  obtain a b where kv: "kv = (a, b)" by (cases kv)
  have "foldl set_own t (kvs @ [kv]) k = set_own (foldl set_own t kvs) kv k"
    by simp
  also have "\<dots> = (if a = ''__proto__'' then foldl set_own t kvs k
                    else if k = a then Some b else foldl set_own t kvs k)"
    by (simp add: set_own_def kv)
  finally show ?case
    using snoc.IH by (cases "k = ''__proto__''") (auto simp: kv)
qed

lemma loadSettings_apply:
  "loadSettings data k =
     (if k = ''__proto__'' then None
      else case map_of (rev (own_enumerable data)) k of
             None \<Rightarrow> map_of (rev (own_enumerable DEFAULT_SETTINGS)) k
           | Some v \<Rightarrow> Some v)"
  by (auto simp: loadSettings_def Object_assign_def foldl_set_own_apply split: option.splits)

lemma default_fields:
  "map_of (rev (own_enumerable DEFAULT_SETTINGS)) ''scheme'' = Some (JString ''csDefault'')"
  "map_of (rev (own_enumerable DEFAULT_SETTINGS)) ''increaseContrast'' = Some (JBool False)"
  "map_of (rev (own_enumerable DEFAULT_SETTINGS)) ''folderList'' = Some (JArray [])"
  by (simp_all add: DEFAULT_SETTINGS_def)

text \<open>
  Claim C10. After \<open>loadSettings\<close> the three fields of the settings are present. A field
  that is not among the properties of the stored data has its default value: \<open>csDefault\<close>,
  \<open>false\<close> and the empty list. When nothing was stored, the settings are the defaults.
\<close>

theorem loaded_settings_total:
  "loadSettings data ''scheme'' \<noteq> None
   \<and> loadSettings data ''increaseContrast'' \<noteq> None
   \<and> loadSettings data ''folderList'' \<noteq> None
   \<and> (''scheme'' \<notin> fst ` set (own_enumerable data)
        \<longrightarrow> loadSettings data ''scheme'' = Some (JString ''csDefault''))
   \<and> (''increaseContrast'' \<notin> fst ` set (own_enumerable data)
        \<longrightarrow> loadSettings data ''increaseContrast'' = Some (JBool False))
   \<and> (''folderList'' \<notin> fst ` set (own_enumerable data)
        \<longrightarrow> loadSettings data ''folderList'' = Some (JArray []))
   \<and> loadSettings JNull
       = [''scheme'' \<mapsto> JString ''csDefault'', ''increaseContrast'' \<mapsto> JBool False,
          ''folderList'' \<mapsto> JArray []]"
proof -
  have missing: "map_of (rev (own_enumerable data)) k = None"
    if "k \<notin> fst ` set (own_enumerable data)" for k
    using that by (simp add: map_of_eq_None_iff)
  have present: "loadSettings data k \<noteq> None"
    if "k \<noteq> ''__proto__''" and "map_of (rev (own_enumerable DEFAULT_SETTINGS)) k \<noteq> None" for k
    using that by (auto simp: loadSettings_apply split: option.splits)
  have default: "loadSettings data k = map_of (rev (own_enumerable DEFAULT_SETTINGS)) k"
    if "k \<noteq> ''__proto__''" and "k \<notin> fst ` set (own_enumerable data)" for k
    using that missing by (simp add: loadSettings_apply)
  have null: "loadSettings JNull
       = [''scheme'' \<mapsto> JString ''csDefault'', ''increaseContrast'' \<mapsto> JBool False,
          ''folderList'' \<mapsto> JArray []]"
    by (rule ext)
      (simp add: loadSettings_def Object_assign_def DEFAULT_SETTINGS_def set_own_def)
  show ?thesis
    using present[of "''scheme''"] present[of "''increaseContrast''"] present[of "''folderList''"]
      default[of "''scheme''"] default[of "''increaseContrast''"] default[of "''folderList''"]
      null
    by (simp add: default_fields)
qed

theorem loaded_settings_total_witness:
  "loadSettings (JObject [(''scheme'', JString ''csPastel'')]) ''scheme'' = Some (JString ''csPastel'')
   \<and> loadSettings (JObject [(''scheme'', JString ''csPastel'')]) ''increaseContrast''
       = Some (JBool False)
   \<and> loadSettings (JObject [(''scheme'', JString ''csPastel'')]) ''folderList'' = Some (JArray [])"
proof -
  have h1: "''increaseContrast'' \<notin> fst ` set (own_enumerable (JObject [(''scheme'', JString ''csPastel'')]))"
    by simp
  have h2: "''folderList'' \<notin> fst ` set (own_enumerable (JObject [(''scheme'', JString ''csPastel'')]))"
    by simp
  have "loadSettings (JObject [(''scheme'', JString ''csPastel'')]) ''scheme'' = Some (JString ''csPastel'')"
    by (simp add: loadSettings_def Object_assign_def DEFAULT_SETTINGS_def set_own_def)
  then show ?thesis
    using loaded_settings_total[of "JObject [(''scheme'', JString ''csPastel'')]"] h1 h2
    by blast
qed


section \<open>Properties of the debounced observer\<close>

lemma callback_from_idle:
  assumes "pending s = []"
  shows "pending (observer_callback now s) = [(Suc (issued s), now + 200)]
         \<and> mutationTimeout (observer_callback now s) = Some (Suc (issued s))
         \<and> runs (observer_callback now s) = runs s"
  using assms
  by (simp add: observer_callback_def setTimeout_def clearTimeout_def Let_def split: option.splits)

lemma callback_rearms:
  assumes "pending s = [(h, due)]" and "mutationTimeout s = Some h" and "h \<noteq> 0"
  shows "pending (observer_callback now s) = [(Suc (issued s), now + 200)]
         \<and> mutationTimeout (observer_callback now s) = Some (Suc (issued s))
         \<and> runs (observer_callback now s) = runs s"
  using assms
  by (simp add: observer_callback_def setTimeout_def clearTimeout_def Let_def)

lemma fire_before_due:
  assumes "pending s = [(h, due)]" and "now < due"
  shows "fire_due now s = s"
  using assms by (simp add: fire_due_def)

lemma fire_when_due:
  assumes "pending s = [(h, due)]" and "due \<le> now"
  shows "pending (fire_due now s) = [] \<and> runs (fire_due now s) = runs s @ [due]"
  using assms by (simp add: fire_due_def)

lemma deliver_burst:
  assumes "pending s = [(h, t0 + 200)]" and "mutationTimeout s = Some h" and "h \<noteq> 0"
      and "burst (t0 # ts)"
  shows "\<exists>h'. h' \<noteq> 0 \<and> pending (deliver ts s) = [(h', last (t0 # ts) + 200)]
              \<and> mutationTimeout (deliver ts s) = Some h'
              \<and> runs (deliver ts s) = runs s"
  using assms
proof (induction ts arbitrary: s h t0)
  case Nil
  then show ?case by simp
next
  case (Cons u ts)
  have u: "t0 \<le> u" "u < t0 + 200" and rest: "burst (u # ts)"
    using Cons.prems(4) by simp_all
  have quiet: "fire_due u s = s"
    using Cons.prems(1) u(2) by (rule fire_before_due)
  let ?s1 = "observer_callback u s"
  have s1: "pending ?s1 = [(Suc (issued s), u + 200)]"
    "mutationTimeout ?s1 = Some (Suc (issued s))" "runs ?s1 = runs s"
    using callback_rearms[OF Cons.prems(1,2,3), of u] by simp_all
  obtain h' where "h' \<noteq> 0" and "pending (deliver ts ?s1) = [(h', last (u # ts) + 200)]"
    and "mutationTimeout (deliver ts ?s1) = Some h'" and "runs (deliver ts ?s1) = runs ?s1"
    using Cons.IH[OF s1(1) s1(2) _ rest] by auto
  then show ?case
    using quiet s1(3) by auto
qed


section \<open>The index of a top-level folder\<close>

lemma style_top_untouched:
  "\<forall>f\<in>set fs. \<forall>v. selector_value f = Matches v \<longrightarrow> parent_of_path d v \<noteq> Some q
     \<Longrightarrow> snd (style_top i fs d) ! q = d ! q"
proof (induction fs arbitrary: i d)
  case Nil
  show ?case by simp
next
  case (Cons f fs)
  show ?case
  proof (cases "selector_value f")
    case (Matches v)
    let ?d1 = "add_class_via_path v (rcs_item_class (Num (int (top_classIndex i)))) d"
    have step: "list_all2 (adds_only (\<lambda>c. True)) d ?d1"
      by (rule add_class_via_path_adds) simp
    have "\<forall>g\<in>set fs. \<forall>w. selector_value g = Matches w \<longrightarrow> parent_of_path ?d1 w \<noteq> Some q"
      using Cons.prems step by (simp add: doc_adds_parent_of_path)
    then have "snd (style_top (Suc i) fs ?d1) ! q = ?d1 ! q"
      by (rule Cons.IH)
    moreover have "parent_of_path d v \<noteq> Some q"
      using Cons.prems Matches by simp
    then have "?d1 ! q = d ! q"
      by (rule add_class_via_path_other)
    ultimately show ?thesis using Matches by simp
  qed simp_all
qed

lemma add_class_via_path_at:
  "parent_of_path d p = Some q \<Longrightarrow> q < length d \<Longrightarrow>
     classList (add_class_via_path p c d ! q) = classList_add c (classList (d ! q))"
  by (simp add: add_class_via_path_def add_class_at_def)

lemma style_top_exact:
  "list_all selector_plain fs \<Longrightarrow> k < length fs \<Longrightarrow>
   parent_of_path d (fs ! k) = Some q \<Longrightarrow> q < length d \<Longrightarrow>
   \<forall>j<length fs. j \<noteq> k \<longrightarrow> parent_of_path d (fs ! j) \<noteq> Some q \<Longrightarrow>
     classList (snd (style_top i fs d) ! q)
       = classList_add (rcs_item_class (Num (int (top_classIndex (i + k))))) (classList (d ! q))"
proof (induction fs arbitrary: i k d)
  case Nil
  then show ?case by simp
next
  case (Cons f fs)
  let ?c = "rcs_item_class (Num (int (top_classIndex i)))"
  let ?d1 = "add_class_via_path f ?c d"
  have step: "list_all2 (adds_only (\<lambda>c. True)) d ?d1"
    by (rule add_class_via_path_adds) simp
  have plain: "selector_plain f" "list_all selector_plain fs"
    using Cons.prems(1) by simp_all
  have unfold: "style_top i (f # fs) d = style_top (Suc i) fs ?d1"
    using plain(1) by (simp add: selector_value_plain)
  have len: "q < length ?d1"
    using step Cons.prems(4) by (simp add: length_doc_adds)
  show ?case
  proof (cases k)
    case 0
    have here: "classList (?d1 ! q) = classList_add ?c (classList (d ! q))"
      using Cons.prems(3,4) 0 by (simp add: add_class_via_path_at)
    have "\<forall>g\<in>set fs. \<forall>w. selector_value g = Matches w \<longrightarrow> parent_of_path ?d1 w \<noteq> Some q"
    proof (intro ballI allI impI)
      fix g w assume g: "g \<in> set fs" and w: "selector_value g = Matches w"
      obtain j where j: "j < length fs" "g = fs ! j"
        using g by (metis in_set_conv_nth)
      have "selector_plain g"
        using plain(2) g by (simp add: list_all_iff)
      then have "w = g"
        using w by (simp add: selector_value_plain)
      moreover have "parent_of_path d ((f # fs) ! Suc j) \<noteq> Some q"
        using Cons.prems(5) j(1) 0 by auto
      ultimately show "parent_of_path ?d1 w \<noteq> Some q"
        using j(2) step by (simp add: doc_adds_parent_of_path)
    qed
    then have "snd (style_top (Suc i) fs ?d1) ! q = ?d1 ! q"
      by (rule style_top_untouched)
    then show ?thesis using unfold here 0 by simp
  next
    case (Suc k')
    have "parent_of_path d f \<noteq> Some q"
      using Cons.prems(5) Suc by auto
    then have same: "?d1 ! q = d ! q"
      by (rule add_class_via_path_other)
    have p: "parent_of_path ?d1 (fs ! k') = Some q"
      using Cons.prems(3) Suc step by (simp add: doc_adds_parent_of_path)
    have k': "k' < length fs" using Cons.prems(2) Suc by simp
    have others: "\<forall>j<length fs. j \<noteq> k' \<longrightarrow> parent_of_path ?d1 (fs ! j) \<noteq> Some q"
    proof (intro allI impI)
      fix j assume "j < length fs" and "j \<noteq> k'"
      then have "parent_of_path d ((f # fs) ! Suc j) \<noteq> Some q"
        using Cons.prems(5) Suc by auto
      then show "parent_of_path ?d1 (fs ! j) \<noteq> Some q"
        using step by (simp add: doc_adds_parent_of_path)
    qed
    have "classList (snd (style_top (Suc i) fs ?d1) ! q)
       = classList_add (rcs_item_class (Num (int (top_classIndex (Suc i + k'))))) (classList (?d1 ! q))"
      using Cons.IH[OF plain(2) k' p len others] .
    then show ?thesis using unfold same Suc by simp
  qed
qed

lemma rcs_item_token:
  assumes "k < 16"
  shows "rcs_item_class (Num (int (k + 1))) = rcs_item_tokens ! k"
proof -
  have "list_all (\<lambda>k. rcs_item_class (Num (int (k + 1))) = rcs_item_tokens ! k) [0..<16]"
    by code_simp
  then show ?thesis
    using assms by (simp add: list_all_iff)
qed

lemma top_class_token:
  "rcs_item_class (Num (int (top_classIndex i))) = rcs_item_tokens ! (i mod 16)"
  using rcs_item_token[of "i mod 16"] by (simp add: top_classIndex_def)

text \<open>
  Claim C1, as amended. The names of the sorted visible listing of the root have no
  character that ends or escapes the selector string. Then the top-level pass completes,
  and the folder at position \<open>i\<close> (from 0) of that listing is given the class token number
  \<open>(i mod 16) + 1\<close> of the cycle, \<open>rcs-item-1\<close> to \<open>rcs-item-16\<close>: when the tree shows the
  folder, the item that holds its title carries that token after the run. When no other
  folder of the listing has its title in the same item, the class list of the item after
  the top-level pass is the former list with that token added, so that tokens of earlier
  runs stay. The index is between 1 and 16, and the position \<open>i + 16\<close> has the index of
  the position \<open>i\<close>.
\<close>

theorem top_level_index_cycle:
  assumes "adapter_list v ''/'' = Some listing"
      and "folders = sort_by localeCompare (filter visible listing)"
      and "list_all selector_plain folders"
      and "i < length folders"
      and "parent_of_path d (folders ! i) = Some q"
      and "q < length d"
  shows "fst (index_top_level localeCompare listing d) = Completed
         \<and> rcs_item_tokens ! (i mod 16)
             \<in> set (classList (snd (setFolderStyling localeCompare v settings d) ! q))
         \<and> ((\<forall>j<length folders. j \<noteq> i \<longrightarrow> parent_of_path d (folders ! j) \<noteq> Some q)
              \<longrightarrow> classList (snd (index_top_level localeCompare listing d) ! q)
                    = classList_add (rcs_item_tokens ! (i mod 16)) (classList (d ! q)))
         \<and> rcs_item_class (Num (int (top_classIndex i))) = rcs_item_tokens ! (i mod 16)
         \<and> top_classIndex i = (i mod 16) + 1
         \<and> 1 \<le> top_classIndex i \<and> top_classIndex i \<le> 16
         \<and> top_classIndex (i + 16) = top_classIndex i"
proof -
  have completes: "fst (index_top_level localeCompare listing d) = Completed"
    using style_top_completed[OF assms(3), of 0 d] assms(2) by (simp add: index_top_level_def)
  then obtain d1 where top: "index_top_level localeCompare listing d = (Completed, d1)"
    by (cases "index_top_level localeCompare listing d") simp
  have d1: "d1 = snd (style_top 0 folders d)"
    using top assms(2) by (simp add: index_top_level_def)
  have "rcs_item_class (Num (int (top_classIndex (0 + i))))
          \<in> set (classList (snd (style_top 0 folders d) ! q))"
    using assms(3,4,5,6) by (rule style_top_assigns)
  then have c1: "rcs_item_tokens ! (i mod 16) \<in> set (classList (d1 ! q))"
    unfolding d1 by (simp only: add_0 top_class_token)
  have "list_all2 (adds_only (\<lambda>c. True)) d d1"
    using style_top_adds[of d 0 folders] d1 by simp
  then have "q < length d1" using assms(6) by (simp add: length_doc_adds)
  then have "rcs_item_tokens ! (i mod 16)
      \<in> set (classList (snd (index_sub_folders v settings d1) ! q))"
    using c1 index_sub_folders_adds doc_adds_class_kept by blast
  moreover have "setFolderStyling localeCompare v settings d = index_sub_folders v settings d1"
    using assms(1) top by (simp add: setFolderStyling_def)
  ultimately have member: "rcs_item_tokens ! (i mod 16)
      \<in> set (classList (snd (setFolderStyling localeCompare v settings d) ! q))"
    by simp
  have exact: "classList (snd (index_top_level localeCompare listing d) ! q)
                 = classList_add (rcs_item_tokens ! (i mod 16)) (classList (d ! q))"
    if "\<forall>j<length folders. j \<noteq> i \<longrightarrow> parent_of_path d (folders ! j) \<noteq> Some q"
  proof -
    have "classList (snd (style_top 0 folders d) ! q)
       = classList_add (rcs_item_class (Num (int (top_classIndex (0 + i))))) (classList (d ! q))"
      using assms(3,4,5,6) that by (rule style_top_exact)
    then have "classList (d1 ! q)
       = classList_add (rcs_item_tokens ! (i mod 16)) (classList (d ! q))"
      unfolding d1 by (simp only: add_0 top_class_token)
    then show ?thesis
      using top by simp
  qed
  have arith: "top_classIndex i = (i mod 16) + 1 \<and> 1 \<le> top_classIndex i
      \<and> top_classIndex i \<le> 16 \<and> top_classIndex (i + 16) = top_classIndex i"
    by (simp add: top_classIndex_def)
  show ?thesis
    using completes member exact top_class_token[of i] arith by blast
qed

theorem top_level_index_cycle_witness:
  "fst (index_top_level compare_code_units [''b'', ''.obsidian'', ''a''] example_document)
     = Completed
   \<and> ''rcs-item-2''
       \<in> set (classList (snd (setFolderStyling compare_code_units example_vault
                                  example_settings example_document) ! 8))
   \<and> classList (snd (index_top_level compare_code_units [''b'', ''.obsidian'', ''a'']
                        example_document) ! 8)
       = [''tree-item'', ''nav-folder'', ''rcs-item-2'']
   \<and> top_classIndex 1 = 2 \<and> top_classIndex (1 + 16) = top_classIndex 1"
proof -
  have h1: "adapter_list example_vault ''/'' = Some [''b'', ''.obsidian'', ''a'']"
    by (simp add: example_vault_def)
  have h2: "[''a'', ''b''] = sort_by compare_code_units (filter visible [''b'', ''.obsidian'', ''a''])"
    by (simp add: sort_by_def visible_def startsWith_def)
  have h3: "list_all selector_plain [''a'', ''b'']"
    by (simp add: selector_plain_def)
  have h4: "(1::nat) < length [''a'', ''b'']"
    by simp
  have h5: "parent_of_path example_document ([''a'', ''b''] ! 1) = Some 8"
    by (simp add: parent_of_path_def querySelector_data_path_def example_document_def
          data_path_def tree_item_def tree_title_def tree_children_def)
  have h6: "(8::nat) < length example_document"
    by (simp add: example_document_def)
  have h7: "\<forall>j<length [''a'', ''b'']. j \<noteq> 1
              \<longrightarrow> parent_of_path example_document ([''a'', ''b''] ! j) \<noteq> Some 8"
    by (simp add: less_Suc_eq parent_of_path_def querySelector_data_path_def
          example_document_def data_path_def tree_item_def tree_title_def tree_children_def)
  have token: "rcs_item_tokens ! (1 mod 16) = ''rcs-item-2''"
    by (simp add: rcs_item_tokens_def)
  have before: "classList_add ''rcs-item-2'' (classList (example_document ! 8))
                  = [''tree-item'', ''nav-folder'', ''rcs-item-2'']"
    by (simp add: classList_add_def example_document_def tree_item_def)
  show ?thesis
    using top_level_index_cycle[OF h1 h2 h3 h4 h5 h6, of example_settings] h7 token before
    by simp
qed

text \<open>
  The claim as stated fails for a listing with a name that holds a double quote: the
  selector built from the name is invalid, \<open>querySelector\<close> throws at that folder, and the
  folder \<open>c\<close>, at the next position of the sorted listing and shown in the tree, is given
  no class.
\<close>

theorem quoted_name_counterexample:
  "sort_by compare_code_units (filter visible [''c'', quoted_name]) = [quoted_name, ''c'']
   \<and> selector_value quoted_name = Throws
   \<and> parent_of_path quoted_document ''c'' = Some 3
   \<and> setFolderStyling compare_code_units quoted_vault plain_settings quoted_document
       = (SyntaxError, quoted_document)
   \<and> classList (quoted_document ! 3) = [''tree-item'', ''nav-folder'']"
  by code_simp


section \<open>Hidden folders\<close>

text \<open>
  Claim C9, as amended. A folder of the root listing whose path begins with a dot is
  skipped by the top-level pass: it is not among the folders that are indexed, and the
  pass on the listing with the folder is the pass on the listing without it, so that the
  other folders have the indices they would have in its absence. The item of the hidden
  folder is left as it was when no selector built from the name of a visible folder of the
  listing is the test for a title in that item. The run is one that the model follows.
\<close>

theorem hidden_folder_skipped:
  assumes "startsWith h ''.''"
      and "parent_of_path d h = Some q"
      and "\<forall>f\<in>set (l1 @ l2). visible f \<longrightarrow>
             (\<forall>v. selector_value f = Matches v \<longrightarrow> parent_of_path d v \<noteq> Some q)"
      and "fst (index_top_level localeCompare (l1 @ h # l2) d) \<noteq> Unmodelled"
  shows "h \<notin> set (sort_by localeCompare (filter visible (l1 @ h # l2)))
         \<and> index_top_level localeCompare (l1 @ h # l2) d = index_top_level localeCompare (l1 @ l2) d
         \<and> snd (index_top_level localeCompare (l1 @ h # l2) d) ! q = d ! q"
proof -
  have hid: "\<not> visible h"
    using assms(1) by (simp add: visible_def)
  then have same: "filter visible (l1 @ h # l2) = filter visible (l1 @ l2)"
    by simp
  have "\<forall>f\<in>set (sort_by localeCompare (filter visible (l1 @ l2))).
          \<forall>v. selector_value f = Matches v \<longrightarrow> parent_of_path d v \<noteq> Some q"
    using assms(3) by (auto simp: set_sort_by)
  then have "snd (style_top 0 (sort_by localeCompare (filter visible (l1 @ l2))) d) ! q = d ! q"
    by (rule style_top_untouched)
  then show ?thesis
    using hid same by (simp add: index_top_level_def set_sort_by)
qed

theorem hidden_folder_skipped_witness:
  "''.obsidian'' \<notin> set (sort_by compare_code_units
                             (filter visible ([''b''] @ ''.obsidian'' # [''a''])))
   \<and> index_top_level compare_code_units ([''b''] @ ''.obsidian'' # [''a'']) example_document
       = index_top_level compare_code_units ([''b''] @ [''a'']) example_document
   \<and> snd (index_top_level compare_code_units ([''b''] @ ''.obsidian'' # [''a''])
            example_document) ! 13
       = example_document ! 13"
proof -
  have h1: "startsWith ''.obsidian'' ''.''"
    by (simp add: startsWith_def)
  have h2: "parent_of_path example_document ''.obsidian'' = Some 13"
    by (simp add: parent_of_path_def querySelector_data_path_def example_document_def
          data_path_def tree_item_def tree_title_def tree_children_def)
  have pa: "selector_value ''a'' = Matches ''a''" and pb: "selector_value ''b'' = Matches ''b''"
    by (simp_all add: selector_value_plain selector_plain_def)
  have h3: "\<forall>f\<in>set ([''b''] @ [''a'']). visible f \<longrightarrow>
              (\<forall>v. selector_value f = Matches v \<longrightarrow> parent_of_path example_document v \<noteq> Some 13)"
    by (simp add: pa pb parent_of_path_def querySelector_data_path_def example_document_def
          data_path_def tree_item_def tree_title_def tree_children_def)
  have h4: "fst (index_top_level compare_code_units ([''b''] @ ''.obsidian'' # [''a''])
                   example_document) \<noteq> Unmodelled"
    by code_simp
  show ?thesis
    using hidden_folder_skipped[OF h1 h2 h3 h4]
    by blast
qed

text \<open>
  The claim as stated fails when the name of a visible folder, read as the body of the
  selector string, is the path of the hidden folder: the selector built from the visible
  name matches the title of \<open>.b\<close>, and the item of \<open>.b\<close> is given \<open>rcs-item-1\<close>, while the
  item of the visible folder is given nothing.
\<close>

theorem escaped_name_counterexample:
  "startsWith ''.b'' ''.''
   \<and> visible escaped_name
   \<and> selector_value escaped_name = Matches ''.b''
   \<and> parent_of_path escaped_document ''.b'' = Some 1
   \<and> fst (index_top_level compare_code_units [''.b'', escaped_name] escaped_document) = Completed
   \<and> classList (snd (index_top_level compare_code_units [''.b'', escaped_name]
                        escaped_document) ! 1)
       = [''tree-item'', ''nav-folder'', ''rcs-item-1'']
   \<and> classList (snd (index_top_level compare_code_units [''.b'', escaped_name]
                        escaped_document) ! 3)
       = [''tree-item'', ''nav-folder'']"
  by code_simp

section \<open>The order of the enumeration\<close>

text \<open>
  Claim C4, as amended. Two listings of the root hold the same folders in any order, and
  the comparator orders the visible names strictly. Then the top-level pass gives the same
  result on both, and so does the whole run when the settings designate no folder.
\<close>

theorem assignment_deterministic:
  assumes "adapter_list v1 ''/'' = Some l1" and "adapter_list v2 ''/'' = Some l2"
      and "mset l1 = mset l2"
      and "orders_strictly localeCompare (set (filter visible l1))"
  shows "index_top_level localeCompare l1 d = index_top_level localeCompare l2 d
         \<and> (designated settings = [] \<longrightarrow>
               setFolderStyling localeCompare v1 settings d
                 = setFolderStyling localeCompare v2 settings d)"
proof -
  have "mset (filter visible l1) = mset (filter visible l2)"
    using assms(3) by (metis mset_filter)
  then have "sort_by localeCompare (filter visible l1) = sort_by localeCompare (filter visible l2)"
    using assms(4) by (rule sort_by_same_mset[rotated])
  then have top: "index_top_level localeCompare l1 d = index_top_level localeCompare l2 d"
    by (simp add: index_top_level_def)
  have "index_sub_folders v1 settings d1 = index_sub_folders v2 settings d1"
    if "designated settings = []" for d1
    using that by (simp add: index_sub_folders_def designated_def split: option.splits)
  then have "setFolderStyling localeCompare v1 settings d
               = setFolderStyling localeCompare v2 settings d"
    if "designated settings = []"
    using that top assms(1,2)
    by (simp add: setFolderStyling_def split: prod.splits outcome.splits)
  then show ?thesis using top by blast
qed

theorem assignment_deterministic_witness:
  "index_top_level compare_code_units [''b'', ''.obsidian'', ''a''] example_document
     = index_top_level compare_code_units [''a'', ''b'', ''.obsidian''] example_document
   \<and> setFolderStyling compare_code_units example_vault plain_settings example_document
       = setFolderStyling compare_code_units example_vault_root_reordered plain_settings
           example_document"
proof -
  have h1: "adapter_list example_vault ''/'' = Some [''b'', ''.obsidian'', ''a'']"
    by (simp add: example_vault_def)
  have h2: "adapter_list example_vault_root_reordered ''/'' = Some [''a'', ''b'', ''.obsidian'']"
    by (simp add: example_vault_root_reordered_def)
  have h3: "mset [''b'', ''.obsidian'', ''a''] = mset [''a'', ''b'', ''.obsidian'']"
    by simp
  have h4: "orders_strictly compare_code_units (set (filter visible [''b'', ''.obsidian'', ''a'']))"
    by (simp add: orders_strictly_def visible_def startsWith_def)
  have h5: "designated plain_settings = []"
    by (simp add: designated_def plain_settings_def)
  show ?thesis
    using assignment_deterministic[OF h1 h2 h3 h4, of example_document plain_settings] h5
    by blast
qed

text \<open>
  The claim as stated fails for names that the comparator does not tell apart: the sort
  is stable, so such names keep the order of the enumeration. The folders \<open>1\<close> and \<open>01\<close>
  compare equal; enumerated as \<open>1\<close>, \<open>01\<close> the folder \<open>1\<close> is given \<open>rcs-item-1\<close>,
  enumerated as \<open>01\<close>, \<open>1\<close> it is given \<open>rcs-item-2\<close>.
\<close>

theorem numeric_tie_counterexample:
  "compare_numeric ''1'' ''01'' = 0
   \<and> adapter_list numbered_vault ''/'' = Some [''1'', ''01'']
   \<and> adapter_list numbered_vault_reordered ''/'' = Some [''01'', ''1'']
   \<and> classList (snd (setFolderStyling compare_numeric numbered_vault plain_settings
                        numbered_document) ! 1)
       = [''tree-item'', ''nav-folder'', ''rcs-item-1'']
   \<and> classList (snd (setFolderStyling compare_numeric numbered_vault_reordered plain_settings
                        numbered_document) ! 1)
       = [''tree-item'', ''nav-folder'', ''rcs-item-2'']"
  by code_simp


section \<open>Mutations, callbacks and runs\<close>

lemma callbacks_burst_one_run:
  assumes "burst (t # ts)" and "pending s = []"
  shows "(\<forall>now. now < last (t # ts) + 200 \<longrightarrow>
            runs (fire_due now (deliver (t # ts) s)) = runs s)
         \<and> (\<forall>now. last (t # ts) + 200 \<le> now \<longrightarrow>
               runs (fire_due now (deliver (t # ts) s)) = runs s @ [last (t # ts) + 200]
               \<and> pending (fire_due now (deliver (t # ts) s)) = [])"
proof -
  have idle: "fire_due t s = s"
    using assms(2) by (simp add: fire_due_def)
  let ?s1 = "observer_callback t s"
  have s1: "pending ?s1 = [(Suc (issued s), t + 200)]"
    "mutationTimeout ?s1 = Some (Suc (issued s))" "runs ?s1 = runs s"
    using callback_from_idle[OF assms(2), of t] by simp_all
  obtain h' where p: "pending (deliver ts ?s1) = [(h', last (t # ts) + 200)]"
    and r: "runs (deliver ts ?s1) = runs s"
    using deliver_burst[OF s1(1) s1(2) _ assms(1)] s1(3) by auto
  have d: "deliver (t # ts) s = deliver ts ?s1"
    using idle by simp
  have "runs (fire_due now (deliver (t # ts) s)) = runs s" if "now < last (t # ts) + 200" for now
    using fire_before_due[OF p that] r d by simp
  moreover have "runs (fire_due now (deliver (t # ts) s)) = runs s @ [last (t # ts) + 200]
               \<and> pending (fire_due now (deliver (t # ts) s)) = []"
    if "last (t # ts) + 200 \<le> now" for now
    using fire_when_due[OF p that] r d by simp
  ultimately show ?thesis by blast
qed

lemma reported_registered:
  "reported registered_options m = (kind m = ChildList \<and> place m \<noteq> Elsewhere)"
  by (cases "kind m"; cases "place m") (simp_all add: reported_def registered_options_def)

text \<open>
  Claim C5, as amended. The callback is called for the mutations of type \<open>childList\<close> at
  or below the observed node, and for no others. When the callbacks that a timed list of
  mutations causes arrive in a burst, each less than 200 ms after the one before, in a
  state with no pending timer, then no run happens before 200 ms have passed since the
  last of them, and when that time has come exactly one run has happened, at that time,
  and nothing is pending.
\<close>

theorem childList_burst_gives_one_run:
  assumes "callback_times registered_options ms = t # ts"
      and "burst (t # ts)"
      and "pending s = []"
  shows "callback_times registered_options ms
           = map fst (filter (\<lambda>e. kind (snd e) = ChildList \<and> place (snd e) \<noteq> Elsewhere) ms)
         \<and> (\<forall>now. now < last (t # ts) + 200 \<longrightarrow> runs (fire_due now (observe ms s)) = runs s)
         \<and> (\<forall>now. last (t # ts) + 200 \<le> now \<longrightarrow>
               runs (fire_due now (observe ms s)) = runs s @ [last (t # ts) + 200]
               \<and> pending (fire_due now (observe ms s)) = [])"
proof -
  have "callback_times registered_options ms
           = map fst (filter (\<lambda>e. kind (snd e) = ChildList \<and> place (snd e) \<noteq> Elsewhere) ms)"
    by (simp add: callback_times_def reported_registered)
  moreover have "observe ms s = deliver (t # ts) s"
    using assms(1) by (simp add: observe_def)
  ultimately show ?thesis
    using callbacks_burst_one_run[OF assms(2,3)] by simp
qed

theorem childList_burst_gives_one_run_witness:
  "callback_times registered_options
     [(100, child_mutation), (120, class_mutation), (150, child_mutation), (250, child_mutation)]
     = [100, 150, 250]
   \<and> runs (fire_due 449 (observe [(100, child_mutation), (120, class_mutation),
                                  (150, child_mutation), (250, child_mutation)] idle_timers))
       = runs idle_timers
   \<and> runs (fire_due 450 (observe [(100, child_mutation), (120, class_mutation),
                                  (150, child_mutation), (250, child_mutation)] idle_timers))
       = runs idle_timers @ [450]
   \<and> pending (fire_due 450 (observe [(100, child_mutation), (120, class_mutation),
                                     (150, child_mutation), (250, child_mutation)] idle_timers))
       = []"
proof -
  let ?ms = "[(100, child_mutation), (120, class_mutation), (150, child_mutation),
              (250, child_mutation)]"
  have h1: "callback_times registered_options ?ms = 100 # [150, 250]"
    by (simp add: callback_times_def reported_def registered_options_def child_mutation_def
          class_mutation_def)
  have h2: "burst (100 # [150, 250])"
    by simp
  have h3: "pending idle_timers = []"
    by (simp add: idle_timers_def)
  have h4: "(449::nat) < last (100 # [150, 250]) + 200"
    by simp
  have h5: "last (100 # [150, 250]) + 200 \<le> (450::nat)"
    by simp
  show ?thesis
    using childList_burst_gives_one_run[OF h1 h2 h3] h1 h4 h5 by simp
qed

text \<open>
  The claim as stated fails for a mutation that the observer is not registered for: a
  class added to an item below the observed node is an attribute mutation, no callback is
  called for it, no timer is set, and no run follows.
\<close>

theorem attribute_mutation_counterexample:
  "kind class_mutation = Attributes
   \<and> place class_mutation = In_subtree
   \<and> \<not> reported registered_options class_mutation
   \<and> observe [(100, class_mutation)] idle_timers = idle_timers
   \<and> pending (observe [(100, class_mutation)] idle_timers) = []
   \<and> runs (fire_due 100000 (observe [(100, class_mutation)] idle_timers)) = []"
  by (simp add: observe_def callback_times_def reported_def registered_options_def
        class_mutation_def idle_timers_def fire_due_def)

end
